theory Spec2Isabelle
  imports Main "HOL-Library.AList" "HOL-Library.Word"
begin

section \<open>The document model behind main.js\<close>

text \<open>
  main.js is the page script of the editor.  It imports the classes Model, Paste, Play
  and Stop from model.js, which is not among the sources.  The types and operations of
  this section describe that module as the specification words it (sections 3 and 4 of
  the specification); every definition that stands for code of model.js says so.
  Coordinates and parameter values are JavaScript numbers in the program; they are
  integers here.
\<close>

subsection \<open>Nodes, edges and the graph\<close>

record pos =
  pos_x :: int
  pos_y :: int

text \<open>Modelled from the spec: the Node of model.js (identifier, type tag, parameters,
  position).\<close>

record node =
  node_id :: nat
  node_type :: string
  params :: "(string \<times> int) list"
  position :: pos

text \<open>Modelled from the spec: the Edge of model.js (identifier, source node and output
  port, destination node and input port).\<close>

record edge =
  edge_id :: nat
  src_node :: nat
  src_port :: nat
  dst_node :: nat
  dst_port :: nat

text \<open>Modelled from the spec: the Graph of model.js.  The mapping from node id to node
  and the set of edges are kept as lists ordered by identifier, so that two graphs with
  the same content are equal; \<open>next_id\<close> is the id counter.\<close>

record graph =
  nodes :: "node list"
  edges :: "edge list"
  next_id :: nat

definition empty_graph :: graph where
  "empty_graph = \<lparr>nodes = [], edges = [], next_id = 0\<rparr>"

definition node_ids :: "graph \<Rightarrow> nat list" where
  "node_ids g = map node_id (nodes g)"

definition edge_ids :: "graph \<Rightarrow> nat list" where
  "edge_ids g = map edge_id (edges g)"

definition find_node :: "nat \<Rightarrow> graph \<Rightarrow> node option" where
  "find_node i g = List.find (\<lambda>n. node_id n = i) (nodes g)"

definition find_edge :: "nat \<Rightarrow> graph \<Rightarrow> edge option" where
  "find_edge i g = List.find (\<lambda>e. edge_id e = i) (edges g)"

definition incident :: "nat \<Rightarrow> edge \<Rightarrow> bool" where
  "incident i e = (src_node e = i \<or> dst_node e = i)"

definition port_taken :: "edge \<Rightarrow> graph \<Rightarrow> bool" where
  "port_taken e g =
     list_ex (\<lambda>e'. dst_node e' = dst_node e \<and> dst_port e' = dst_port e) (edges g)"

text \<open>Modelled from the spec: the structural invariants of the Graph (section 3): no
  duplicate node or edge id, no dangling edge, no self-loop, at most one incoming edge
  for a destination input port.\<close>

definition edge_ok :: "graph \<Rightarrow> edge \<Rightarrow> bool" where
  "edge_ok g e =
     (src_node e \<in> set (node_ids g) \<and> dst_node e \<in> set (node_ids g) \<and>
      src_node e \<noteq> dst_node e)"

definition wf_graph :: "graph \<Rightarrow> bool" where
  "wf_graph g =
     (sorted (node_ids g) \<and> distinct (node_ids g) \<and>
      sorted (edge_ids g) \<and> distinct (edge_ids g) \<and>
      list_all (edge_ok g) (edges g) \<and>
      distinct (map (\<lambda>e. (dst_node e, dst_port e)) (edges g)))"

subsection \<open>Commands and the GraphStore\<close>

text \<open>Modelled from the spec: the Command variants of model.js (section 3).  The six
  structural variants are the ones the GraphStore applies; Paste, Play and Stop are the
  action classes main.js instantiates.  GroupNodes has no constructor: the
  specification leaves its meaning open (section 9) and says only that it is composed
  into one batch, which \<open>dispatch_batch\<close> below is.\<close>

datatype structural =
    AddNode node
  | RemoveNode nat
  | AddEdge edge
  | RemoveEdge nat
  | MoveNode nat pos
  | SetParameter nat string int

datatype command =
    Structural structural
  | Paste string pos
  | Play
  | Stop

datatype GraphError = InvalidReference | PortOccupied | SelfLoopRejected

datatype FormatError = SyntaxViolation | VersionMismatch | IntegrityViolation

text \<open>Modelled from the spec: the error taxonomy of section 7.  UnknownCommand is never
  raised here, since the command type has no malformed value.  ReplayFailure is what
  undo and redo return when the GraphStore rejects a recorded command.\<close>

datatype ModelError = UnknownCommand | GraphFailure GraphError | FormatFailure FormatError

datatype HistoryError = NothingToUndo | NothingToRedo | ReplayFailure GraphError

definition update_node :: "nat \<Rightarrow> (node \<Rightarrow> node) \<Rightarrow> node list \<Rightarrow> node list" where
  "update_node i f ns = map (\<lambda>n. if node_id n = i then f n else n) ns"

text \<open>Modelled from the spec: applyStructural of the GraphStore (section 4.1).  The
  command is validated first; a rejected command returns the error and no new graph.
  An accepted one returns the new graph and the inverse command.  Removing a node that
  still has an edge would leave the edge dangling and is rejected; an occupied input
  port rejects a second edge.\<close>

fun applyStructural :: "structural \<Rightarrow> graph \<Rightarrow> GraphError + (graph \<times> structural)" where
  "applyStructural (AddNode n) g =
     (if node_id n \<in> set (node_ids g) then Inl InvalidReference
      else Inr (g\<lparr>nodes := insort_key node_id n (nodes g)\<rparr>, RemoveNode (node_id n)))"
| "applyStructural (RemoveNode i) g =
     (case find_node i g of
        None \<Rightarrow> Inl InvalidReference
      | Some n \<Rightarrow>
          if list_ex (incident i) (edges g) then Inl InvalidReference
          else Inr (g\<lparr>nodes := remove1 n (nodes g)\<rparr>, AddNode n))"
| "applyStructural (AddEdge e) g =
     (if edge_id e \<in> set (edge_ids g) then Inl InvalidReference
      else if src_node e \<notin> set (node_ids g) \<or> dst_node e \<notin> set (node_ids g)
        then Inl InvalidReference
      else if src_node e = dst_node e then Inl SelfLoopRejected
      else if port_taken e g then Inl PortOccupied
      else Inr (g\<lparr>edges := insort_key edge_id e (edges g)\<rparr>, RemoveEdge (edge_id e)))"
| "applyStructural (RemoveEdge i) g =
     (case find_edge i g of
        None \<Rightarrow> Inl InvalidReference
      | Some e \<Rightarrow> Inr (g\<lparr>edges := remove1 e (edges g)\<rparr>, AddEdge e))"
| "applyStructural (MoveNode i p) g =
     (case find_node i g of
        None \<Rightarrow> Inl InvalidReference
      | Some n \<Rightarrow>
          Inr (g\<lparr>nodes := update_node i (\<lambda>m. m\<lparr>position := p\<rparr>) (nodes g)\<rparr>,
               MoveNode i (position n)))"
| "applyStructural (SetParameter i k v) g =
     (case find_node i g of
        None \<Rightarrow> Inl InvalidReference
      | Some n \<Rightarrow>
          (case map_of (params n) k of
             None \<Rightarrow> Inl InvalidReference
           | Some v0 \<Rightarrow>
               Inr (g\<lparr>nodes :=
                        update_node i (\<lambda>m. m\<lparr>params := AList.update k v (params m)\<rparr>) (nodes g)\<rparr>,
                    SetParameter i k v0)))"

text \<open>A composite list of commands is applied all or nothing; the inverses come back in
  the order in which they undo the list.\<close>

fun applyBatch :: "structural list \<Rightarrow> graph \<Rightarrow> GraphError + (graph \<times> structural list)" where
  "applyBatch [] g = Inr (g, [])"
| "applyBatch (c # cs) g =
     (case applyStructural c g of
        Inl err \<Rightarrow> Inl err
      | Inr (g1, rv) \<Rightarrow>
          (case applyBatch cs g1 of
             Inl err \<Rightarrow> Inl err
           | Inr (g2, rvs) \<Rightarrow> Inr (g2, rvs @ [rv])))"

subsection \<open>History\<close>

text \<open>Modelled from the spec: a HistoryEntry of model.js, the forward and the inverse
  command, each a composite list (section 4.2).\<close>

record entry =
  forward_cmds :: "structural list"
  inverse_cmds :: "structural list"

datatype notification = PlaybackStarted | PlaybackStopped

text \<open>Modelled from the spec: the state of a Model of model.js: the graph, the undo
  and redo stacks (most recent last), the playback flag \<open>model.playing\<close> that main.js
  reads, and the notifications sent so far to the audio engine.\<close>

record Model =
  graph :: graph
  undo_stack :: "entry list"
  redo_stack :: "entry list"
  playing :: bool
  emitted :: "notification list"

definition fresh_model :: Model where
  "fresh_model =
     \<lparr>graph = empty_graph, undo_stack = [], redo_stack = [], playing = False, emitted = []\<rparr>"

text \<open>Modelled from the spec: push, undo and redo of the HistoryManager (section 4.3).\<close>

definition push :: "entry \<Rightarrow> Model \<Rightarrow> Model" where
  "push e m = m\<lparr>undo_stack := undo_stack m @ [e], redo_stack := []\<rparr>"

definition undo :: "Model \<Rightarrow> HistoryError + Model" where
  "undo m =
     (if undo_stack m = [] then Inl NothingToUndo
      else
        (let e = last (undo_stack m) in
         case applyBatch (inverse_cmds e) (graph m) of
           Inl err \<Rightarrow> Inl (ReplayFailure err)
         | Inr (g, _) \<Rightarrow>
             Inr (m\<lparr>graph := g, undo_stack := butlast (undo_stack m),
                    redo_stack := redo_stack m @ [e]\<rparr>)))"

definition redo :: "Model \<Rightarrow> HistoryError + Model" where
  "redo m =
     (if redo_stack m = [] then Inl NothingToRedo
      else
        (let e = last (redo_stack m) in
         case applyBatch (forward_cmds e) (graph m) of
           Inl err \<Rightarrow> Inl (ReplayFailure err)
         | Inr (g, _) \<Rightarrow>
             Inr (m\<lparr>graph := g, redo_stack := butlast (redo_stack m),
                    undo_stack := undo_stack m @ [e]\<rparr>)))"

subsection \<open>Playback\<close>

text \<open>Modelled from the spec: the Play and Stop transitions of the PlaybackController
  (section 4.6).\<close>

definition play :: "Model \<Rightarrow> Model" where
  "play m =
     (if playing m then m
      else m\<lparr>playing := True, emitted := emitted m @ [PlaybackStarted]\<rparr>)"

definition stop :: "Model \<Rightarrow> Model" where
  "stop m =
     (if playing m then m\<lparr>playing := False, emitted := emitted m @ [PlaybackStopped]\<rparr>
      else m)"

subsection \<open>Serializer\<close>

text \<open>Modelled from the spec: the text format of model.js.  The specification asks for a
  deterministic text with a version marker that holds every node and edge and the id
  counter (section 4.4) and fixes no syntax.  Here a natural number is written in
  decimal and closed by a semicolon, an integer has a sign in front, a string and a list
  are preceded by their length.\<close>

definition digit_char :: "nat \<Rightarrow> char" where
  "digit_char d = char_of (48 + d)"

definition digit_value :: "char \<Rightarrow> nat" where
  "digit_value c = of_char c - 48"

definition is_digit :: "char \<Rightarrow> bool" where
  "is_digit c = (48 \<le> (of_char c :: nat) \<and> (of_char c :: nat) \<le> 57)"

fun show_nat :: "nat \<Rightarrow> string" where
  "show_nat n =
     (if n < 10 then [digit_char n] else show_nat (n div 10) @ [digit_char (n mod 10)])"

definition digits_value :: "string \<Rightarrow> nat" where
  "digits_value ds = foldl (\<lambda>a c. 10 * a + digit_value c) 0 ds"

definition write_nat :: "nat \<Rightarrow> string" where
  "write_nat n = show_nat n @ '';''"

definition read_nat :: "string \<Rightarrow> (nat \<times> string) option" where
  "read_nat s =
     (let ds = takeWhile is_digit s in
      if ds = [] then None
      else
        (case dropWhile is_digit s of
           [] \<Rightarrow> None
         | c # rest \<Rightarrow> if c = CHR '';'' then Some (digits_value ds, rest) else None))"

definition write_int :: "int \<Rightarrow> string" where
  "write_int i = (if i < 0 then CHR ''-'' else CHR ''+'') # write_nat (nat \<bar>i\<bar>)"

definition read_int :: "string \<Rightarrow> (int \<times> string) option" where
  "read_int s =
     (case s of
        [] \<Rightarrow> None
      | c # r \<Rightarrow>
          if c = CHR ''+'' then map_option (\<lambda>(n, r'). (int n, r')) (read_nat r)
          else if c = CHR ''-'' then map_option (\<lambda>(n, r'). (- int n, r')) (read_nat r)
          else None)"

definition write_string :: "string \<Rightarrow> string" where
  "write_string s = write_nat (length s) @ s"

definition read_string :: "string \<Rightarrow> (string \<times> string) option" where
  "read_string s =
     (case read_nat s of
        None \<Rightarrow> None
      | Some (n, r) \<Rightarrow> if length r < n then None else Some (take n r, drop n r))"

definition write_list :: "('a \<Rightarrow> string) \<Rightarrow> 'a list \<Rightarrow> string" where
  "write_list w xs = write_nat (length xs) @ concat (map w xs)"

fun read_items :: "(string \<Rightarrow> ('a \<times> string) option) \<Rightarrow> nat \<Rightarrow> string \<Rightarrow> ('a list \<times> string) option" where
  "read_items rd 0 s = Some ([], s)"
| "read_items rd (Suc n) s =
     (case rd s of
        None \<Rightarrow> None
      | Some (x, r) \<Rightarrow>
          (case read_items rd n r of
             None \<Rightarrow> None
           | Some (xs, r') \<Rightarrow> Some (x # xs, r')))"

definition read_list :: "(string \<Rightarrow> ('a \<times> string) option) \<Rightarrow> string \<Rightarrow> ('a list \<times> string) option" where
  "read_list rd s =
     (case read_nat s of None \<Rightarrow> None | Some (n, r) \<Rightarrow> read_items rd n r)"

definition write_param :: "string \<times> int \<Rightarrow> string" where
  "write_param p = write_string (fst p) @ write_int (snd p)"

definition read_param :: "string \<Rightarrow> ((string \<times> int) \<times> string) option" where
  "read_param s =
     Option.bind (read_string s) (\<lambda>(k, s1).
     Option.bind (read_int s1) (\<lambda>(v, s2). Some ((k, v), s2)))"

definition write_node :: "node \<Rightarrow> string" where
  "write_node n =
     write_nat (node_id n) @ write_string (node_type n) @ write_list write_param (params n) @
     write_int (pos_x (position n)) @ write_int (pos_y (position n))"

definition read_node :: "string \<Rightarrow> (node \<times> string) option" where
  "read_node s =
     Option.bind (read_nat s) (\<lambda>(i, s1).
     Option.bind (read_string s1) (\<lambda>(t, s2).
     Option.bind (read_list read_param s2) (\<lambda>(ps, s3).
     Option.bind (read_int s3) (\<lambda>(x, s4).
     Option.bind (read_int s4) (\<lambda>(y, s5).
       Some (\<lparr>node_id = i, node_type = t, params = ps,
              position = \<lparr>pos_x = x, pos_y = y\<rparr>\<rparr>, s5))))))"

definition write_edge :: "edge \<Rightarrow> string" where
  "write_edge e =
     write_nat (edge_id e) @ write_nat (src_node e) @ write_nat (src_port e) @
     write_nat (dst_node e) @ write_nat (dst_port e)"

definition read_edge :: "string \<Rightarrow> (edge \<times> string) option" where
  "read_edge s =
     Option.bind (read_nat s) (\<lambda>(i, s1).
     Option.bind (read_nat s1) (\<lambda>(a, s2).
     Option.bind (read_nat s2) (\<lambda>(ap, s3).
     Option.bind (read_nat s3) (\<lambda>(b, s4).
     Option.bind (read_nat s4) (\<lambda>(bp, s5).
       Some (\<lparr>edge_id = i, src_node = a, src_port = ap, dst_node = b, dst_port = bp\<rparr>,
             s5))))))"

definition format_tag :: string where
  "format_tag = ''NOISECRAFT''"

definition format_version :: nat where
  "format_version = 1"

text \<open>Modelled from the spec: serialize of the Serializer (section 4.4): the version
  marker, the id counter, the nodes and the edges, each list in the order of its
  identifiers.\<close>

definition serialize :: "graph \<Rightarrow> string" where
  "serialize g =
     format_tag @ write_nat format_version @ write_nat (next_id g) @
     write_list write_node (nodes g) @ write_list write_edge (edges g)"

definition read_graph :: "string \<Rightarrow> (graph \<times> string) option" where
  "read_graph s =
     Option.bind (read_nat s) (\<lambda>(c, s1).
     Option.bind (read_list read_node s1) (\<lambda>(ns, s2).
     Option.bind (read_list read_edge s2) (\<lambda>(es, s3).
       Some (\<lparr>nodes = sort_key node_id ns, edges = sort_key edge_id es, next_id = c\<rparr>, s3))))"

text \<open>Modelled from the spec: deserialize of the Serializer (section 4.4).  The text is
  parsed, then the graph it describes is validated; a text that does not parse, that has
  another version, or whose graph breaks an invariant gives a FormatError and no
  graph.\<close>

definition deserialize :: "string \<Rightarrow> FormatError + graph" where
  "deserialize s =
     (if take (length format_tag) s \<noteq> format_tag then Inl SyntaxViolation
      else
        (case read_nat (drop (length format_tag) s) of
           None \<Rightarrow> Inl SyntaxViolation
         | Some (v, s1) \<Rightarrow>
             if v \<noteq> format_version then Inl VersionMismatch
             else
               (case read_graph s1 of
                  None \<Rightarrow> Inl SyntaxViolation
                | Some (g, rest) \<Rightarrow>
                    if rest \<noteq> [] then Inl SyntaxViolation
                    else if wf_graph g then Inr g
                    else Inl IntegrityViolation)))"

subsection \<open>Clipboard\<close>

type_synonym fragment = "node list \<times> edge list"

definition local_edge :: "(nat \<rightharpoonup> nat) \<Rightarrow> edge \<Rightarrow> edge option" where
  "local_edge f e =
     (case f (src_node e) of
        None \<Rightarrow> None
      | Some a \<Rightarrow>
          (case f (dst_node e) of
             None \<Rightarrow> None
           | Some b \<Rightarrow> Some (e\<lparr>src_node := a, dst_node := b\<rparr>)))"

definition number_nodes :: "nat \<Rightarrow> node list \<Rightarrow> node list" where
  "number_nodes c ns = map (\<lambda>(n, i). n\<lparr>node_id := i\<rparr>) (zip ns [c ..< c + length ns])"

definition number_edges :: "nat \<Rightarrow> edge list \<Rightarrow> edge list" where
  "number_edges c es = map (\<lambda>(e, i). e\<lparr>edge_id := i\<rparr>) (zip es [c ..< c + length es])"

definition id_map :: "node list \<Rightarrow> nat \<Rightarrow> (nat \<rightharpoonup> nat)" where
  "id_map ns c = map_of (zip (map node_id ns) [c ..< c + length ns])"

text \<open>Modelled from the spec: copy of the ClipboardCodec (section 4.5): the selected
  nodes and the edges with both ends among them, with ids counted from zero inside the
  fragment.\<close>

definition copy :: "graph \<Rightarrow> nat list \<Rightarrow> fragment" where
  "copy g sel =
     (let ns = filter (\<lambda>n. node_id n \<in> set sel) (nodes g);
          es = List.map_filter (local_edge (id_map ns 0)) (edges g)
      in (number_nodes 0 ns, number_edges 0 es))"

text \<open>The fragment as text: what \<open>JSON.stringify\<close> makes of the copied data in
  main.js, in the node and edge syntax of the Serializer.\<close>

definition fragment_text :: "fragment \<Rightarrow> string" where
  "fragment_text f = write_list write_node (fst f) @ write_list write_edge (snd f)"

definition read_fragment :: "string \<Rightarrow> fragment option" where
  "read_fragment s =
     Option.bind (read_list read_node s) (\<lambda>(ns, s1).
     Option.bind (read_list read_edge s1) (\<lambda>(es, s2).
       if s2 = [] then Some (ns, es) else None))"

fun bounds :: "int list \<Rightarrow> int \<times> int" where
  "bounds [] = (0, 0)"
| "bounds (x # xs) = (fold min xs x, fold max xs x)"

definition bbox_center :: "pos list \<Rightarrow> pos" where
  "bbox_center ps =
     (let bx = bounds (map pos_x ps); by = bounds (map pos_y ps)
      in \<lparr>pos_x = (fst bx + snd bx) div 2, pos_y = (fst by + snd by) div 2\<rparr>)"

definition translate :: "pos \<Rightarrow> pos \<Rightarrow> pos \<Rightarrow> pos" where
  "translate c anchor p =
     \<lparr>pos_x = pos_x p - pos_x c + pos_x anchor, pos_y = pos_y p - pos_y c + pos_y anchor\<rparr>"

text \<open>Modelled from the spec: decode of the ClipboardCodec (section 4.5).  The ids of
  the fragment are replaced by ids minted from the counter (first the nodes, then the
  edges), the positions are moved so that the centre of the bounding box lies on the
  anchor, and the fragment comes back as AddNode and AddEdge commands with the counter
  after minting.\<close>

definition decode :: "string \<Rightarrow> pos \<Rightarrow> nat \<Rightarrow> FormatError + (structural list \<times> nat)" where
  "decode text anchor c =
     (case read_fragment text of
        None \<Rightarrow> Inl SyntaxViolation
      | Some (ns, es) \<Rightarrow>
          if \<not> distinct (map node_id ns) then Inl IntegrityViolation
          else
            (case those (map (local_edge (id_map ns c)) es) of
               None \<Rightarrow> Inl IntegrityViolation
             | Some es' \<Rightarrow>
                 (let ctr = bbox_center (map position ns);
                      ns' = map (\<lambda>n. n\<lparr>position := translate ctr anchor (position n)\<rparr>) ns
                  in Inr (map AddNode (number_nodes c ns') @
                          map AddEdge (number_edges (c + length ns) es'),
                          c + length ns + length es))))"

subsection \<open>The Model as main.js uses it\<close>

text \<open>Modelled from the spec: the batch path of the CommandProcessor (section 4.2): a
  composite list of structural commands is applied all or nothing and recorded as one
  HistoryEntry whose forward and inverse commands are lists.  Paste goes this way, and
  so does GroupNodes, whatever list of commands it is composed into.\<close>

definition dispatch_batch :: "structural list \<Rightarrow> Model \<Rightarrow> ModelError + Model" where
  "dispatch_batch cmds m =
     (case applyBatch cmds (graph m) of
        Inl err \<Rightarrow> Inl (GraphFailure err)
      | Inr (g, rvs) \<Rightarrow>
          Inr (push \<lparr>forward_cmds = cmds, inverse_cmds = rvs\<rparr> (m\<lparr>graph := g\<rparr>)))"

text \<open>Modelled from the spec: dispatch of the CommandProcessor (section 4.2), the method
  \<open>model.update\<close> of main.js.  A structural command goes to the GraphStore and its
  inverse to the history; Play and Stop go to the PlaybackController; Paste is decoded
  with ids minted from the counter and applied as one batch.\<close>

fun dispatch :: "command \<Rightarrow> Model \<Rightarrow> ModelError + Model" where
  "dispatch (Structural c) m =
     (case applyStructural c (graph m) of
        Inl err \<Rightarrow> Inl (GraphFailure err)
      | Inr (g, rv) \<Rightarrow>
          Inr (push \<lparr>forward_cmds = [c], inverse_cmds = [rv]\<rparr> (m\<lparr>graph := g\<rparr>)))"
| "dispatch (Paste text anchor) m =
     (case decode text anchor (next_id (graph m)) of
        Inl err \<Rightarrow> Inl (FormatFailure err)
      | Inr (cmds, c) \<Rightarrow> dispatch_batch cmds (m\<lparr>graph := (graph m)\<lparr>next_id := c\<rparr>\<rparr>))"
| "dispatch Play m = Inr (play m)"
| "dispatch Stop m = Inr (stop m)"

text \<open>Modelled from the spec: the replacement of the document: the graph is swapped
  wholesale and the history starts empty (section 3).\<close>

definition replace_document :: "graph \<Rightarrow> Model \<Rightarrow> Model" where
  "replace_document g m = m\<lparr>graph := g, undo_stack := [], redo_stack := []\<rparr>"

text \<open>Modelled from the spec: \<open>model.new()\<close>, the new document operation.  Creating a
  document while Playing forces an implicit Stop first (section 4.6): the Stop
  transition runs, with its notification, and then the empty graph replaces the old
  one.\<close>

definition new_document :: "Model \<Rightarrow> Model" where
  "new_document m = replace_document empty_graph (stop m)"

text \<open>Modelled from the spec: \<open>model.deserialize(text)\<close>.  main.js tests its result for
  truth; a FormatError is the result false and leaves the model as it was; a valid text
  forces the implicit Stop first (section 4.6) and then replaces the graph.\<close>

definition load_text :: "string \<Rightarrow> Model \<Rightarrow> bool \<times> Model" where
  "load_text text m =
     (case deserialize text of
        Inl err \<Rightarrow> (False, m)
      | Inr g \<Rightarrow> (True, replace_document g (stop m)))"

section \<open>main.js\<close>

text \<open>
  The page script, function by function.  What main.js takes from other modules and
  from the browser is a record of functions: the methods of the Model object it calls
  (\<open>new\<close>, \<open>update\<close>, \<open>serialize\<close>, \<open>deserialize\<close>, \<open>copy\<close>, the property
  \<open>playing\<close>) and \<open>JSON.stringify\<close>.  The model state is any type \<open>'m\<close>.  A call of
  \<open>model.update\<close> either returns or throws a value of type \<open>'x\<close>, also when the
  constructor of the action throws; the other methods return.
\<close>

record ('m, 'f, 'x) modules =
  model_new :: "'m \<Rightarrow> 'm"
  model_update :: "command \<Rightarrow> 'm \<Rightarrow> 'x option \<times> 'm"
  model_playing :: "'m \<Rightarrow> bool"
  model_serialize :: "'m \<Rightarrow> string"
  model_deserialize :: "string \<Rightarrow> 'm \<Rightarrow> bool \<times> 'm"
  model_copy :: "nat list \<Rightarrow> 'm \<Rightarrow> 'f"
  JSON_stringify :: "'f \<Rightarrow> string"

datatype console_msg = Log string | Warn string

text \<open>The calls main.js makes to the model and to the browser's storage and history, in
  order; each entry keeps the value \<open>model.playing\<close> had when the call was made.\<close>

datatype call =
    Model_new
  | Model_update command
  | Model_deserialize string
  | Model_serialize
  | Model_copy "nat list"
  | Storage_getItem string
  | Storage_setItem string string
  | History_replaceState

text \<open>The state of the page: the variables of main.js (\<open>model\<close> as \<open>model_state\<close>, \<open>cursor\<close>, the
  selection of the editor), and what it reads and writes of the document and the window:
  the tag of the active element, the display of the two buttons, the text of the title
  element (UTF-16 code units, as JavaScript counts them), the console, the hash of the location, the local
  storage, and for the event being handled the clipboard text it set and whether
  \<open>preventDefault\<close> was called.\<close>

record 'm page =
  model_state :: 'm
  selected :: "nat list"
  cursor :: pos
  activeElement :: "string option"
  btnPlay_display :: string
  btnStop_display :: string
  title :: "16 word list"
  console :: "console_msg list"
  location_hash :: string
  localStorage :: "string \<rightharpoonup> string"
  clipboardData :: "string option"
  defaultPrevented :: bool
  calls :: "(call \<times> bool) list"

datatype ('x, 'a) completion = Return 'a | Throw 'x

definition record_call :: "('m, 'f, 'x) modules \<Rightarrow> call \<Rightarrow> 'm page \<Rightarrow> 'm page" where
  "record_call js c pg = pg\<lparr>calls := calls pg @ [(c, model_playing js (model_state pg))]\<rparr>"

definition console_log :: "string \<Rightarrow> 'm page \<Rightarrow> 'm page" where
  "console_log s pg = pg\<lparr>console := console pg @ [Log s]\<rparr>"

definition console_warn :: "string \<Rightarrow> 'm page \<Rightarrow> 'm page" where
  "console_warn s pg = pg\<lparr>console := console pg @ [Warn s]\<rparr>"

text \<open>The statement \<open>model.update(action)\<close>.\<close>

definition call_update :: "('m, 'f, 'x) modules \<Rightarrow> command \<Rightarrow> 'm page \<Rightarrow> ('x, unit) completion \<times> 'm page" where
  "call_update js a pg =
     (case model_update js a (model_state pg) of
        (None, m') \<Rightarrow> (Return (), (record_call js (Model_update a) pg)\<lparr>model_state := m'\<rparr>)
      | (Some x, m') \<Rightarrow> (Throw x, (record_call js (Model_update a) pg)\<lparr>model_state := m'\<rparr>))"

text \<open>Reading \<open>document.title\<close>: the getter returns the text of the title element with
  ASCII whitespace stripped at both ends and every run of it collapsed to one space;
  assigning to \<open>document.title\<close> stores the text as given.\<close>

definition is_space :: "16 word \<Rightarrow> bool" where
  "is_space c = (c = 0x09 \<or> c = 0x0A \<or> c = 0x0C \<or> c = 0x0D \<or> c = 0x20)"

fun collapse :: "bool \<Rightarrow> 16 word list \<Rightarrow> 16 word list" where
  "collapse pending [] = []"
| "collapse pending (c # cs) =
     (if is_space c then collapse True cs
      else (if pending then [0x20, c] else [c]) @ collapse False cs)"

definition document_title :: "'m page \<Rightarrow> 16 word list" where
  "document_title pg = collapse False (dropWhile is_space (title pg))"

text \<open>The play marker that startPlayback puts in front of the title: U+25B6 and a
  space.\<close>

definition play_marker :: "16 word list" where
  "play_marker = [0x25B6, 0x20]"

definition startPlayback :: "('m, 'f, 'x) modules \<Rightarrow> 'm page \<Rightarrow> ('x, unit) completion \<times> 'm page" where
  "startPlayback js pg =
     (if model_playing js (model_state pg) then (Return (), pg)
      else
        call_update js Play
          ((console_log ''starting playback'' pg)
             \<lparr>btnPlay_display := ''none'', btnStop_display := ''inline-block'',
              title := play_marker @ document_title pg\<rparr>))"

definition stopPlayback :: "('m, 'f, 'x) modules \<Rightarrow> 'm page \<Rightarrow> ('x, unit) completion \<times> 'm page" where
  "stopPlayback js pg =
     (if \<not> model_playing js (model_state pg) then (Return (), pg)
      else
        call_update js Stop
          ((console_log ''stopping playback'' pg)
             \<lparr>btnPlay_display := ''inline-block'', btnStop_display := ''none'',
              title := drop 2 (document_title pg)\<rparr>))"

definition importModel :: "('m, 'f, 'x) modules \<Rightarrow> string \<Rightarrow> 'm page \<Rightarrow> ('x, bool) completion \<times> 'm page" where
  "importModel js serializedModelData pg =
     (case stopPlayback js pg of
        (Throw x, pg1) \<Rightarrow> (Throw x, pg1)
      | (Return u, pg1) \<Rightarrow>
          (case model_deserialize js serializedModelData (model_state pg1) of
             (ok, m') \<Rightarrow>
               (Return ok,
                (record_call js (Model_deserialize serializedModelData) pg1)\<lparr>model_state := m'\<rparr>)))"

definition storage_key :: string where
  "storage_key = ''latestModelData''"

definition onload :: "('m, 'f, 'x) modules \<Rightarrow> 'm page \<Rightarrow> ('x, unit) completion \<times> 'm page" where
  "onload js pg =
     (let pg1 = (record_call js Model_new pg)\<lparr>model_state := model_new js (model_state pg)\<rparr> in
      if location_hash pg1 \<noteq> [] then
        (if location_hash pg1 = ''#new''
         then (Return (), (record_call js History_replaceState pg1)\<lparr>location_hash := []\<rparr>)
         else (Return (), pg1))
      else
        (let pg2 = record_call js (Storage_getItem storage_key) pg1 in
         case localStorage pg2 storage_key of
           None \<Rightarrow> (Return (), pg2)
         | Some serializedModelData \<Rightarrow>
             if serializedModelData = [] then (Return (), pg2)
             else
               (case importModel js serializedModelData pg2 of
                  (Throw x, pg3) \<Rightarrow> (Throw x, pg3)
                | (Return ok, pg3) \<Rightarrow>
                    if ok
                    then (Return (), console_log ''model restored from previous session'' pg3)
                    else (Return (),
                          console_warn ''could not restore model from previous session'' pg3))))"

definition onunload :: "('m, 'f, 'x) modules \<Rightarrow> 'm page \<Rightarrow> ('x, unit) completion \<times> 'm page" where
  "onunload js pg =
     (let text = model_serialize js (model_state pg);
          pg1 = record_call js Model_serialize pg;
          pg2 = record_call js (Storage_setItem storage_key text) pg1
      in (Return (), pg2\<lparr>localStorage := (localStorage pg2)(storage_key \<mapsto> text)\<rparr>))"

definition isAnyInputActive :: "'m page \<Rightarrow> bool" where
  "isAnyInputActive pg =
     (case activeElement pg of
        None \<Rightarrow> False
      | Some tagName \<Rightarrow> tagName = ''INPUT'' \<or> tagName = ''SELECT'')"

text \<open>The paste handler; its argument is the text
  \<open>e.clipboardData.getData('text/plain')\<close> of the event.\<close>

definition onpaste :: "('m, 'f, 'x) modules \<Rightarrow> string \<Rightarrow> 'm page \<Rightarrow> ('x, unit) completion \<times> 'm page" where
  "onpaste js text pg =
     (if isAnyInputActive pg then (Return (), pg)
      else
        (case call_update js (Paste text (cursor pg)) pg of
           (Return u, pg1) \<Rightarrow> (Return (), pg1\<lparr>defaultPrevented := True\<rparr>)
         | (Throw x, pg1) \<Rightarrow> (Return (), pg1)))"

definition oncopy :: "('m, 'f, 'x) modules \<Rightarrow> 'm page \<Rightarrow> ('x, unit) completion \<times> 'm page" where
  "oncopy js pg =
     (if isAnyInputActive pg then (Return (), pg)
      else if length (selected pg) = 0 then (Return (), pg)
      else
        (let data = JSON_stringify js (model_copy js (selected pg) (model_state pg))
         in (Return (),
             (record_call js (Model_copy (selected pg)) pg)
               \<lparr>clipboardData := Some data, defaultPrevented := True\<rparr>)))"

text \<open>handleMouseEvent; its argument is the position \<open>editor.getMousePos(e)\<close>.\<close>

definition handleMouseEvent :: "pos \<Rightarrow> 'm page \<Rightarrow> 'm page" where
  "handleMouseEvent p pg = pg\<lparr>cursor := p\<rparr>"


subsection \<open>main.js on the Model of the specification\<close>

definition update :: "command \<Rightarrow> Model \<Rightarrow> ModelError option \<times> Model" where
  "update c m = (case dispatch c m of Inl err \<Rightarrow> (Some err, m) | Inr m' \<Rightarrow> (None, m'))"

definition model_js :: "(Model, fragment, ModelError) modules" where
  "model_js =
     \<lparr>model_new = new_document, model_update = update, model_playing = playing,
      model_serialize = (\<lambda>m. serialize (graph m)), model_deserialize = load_text,
      model_copy = (\<lambda>sel m. copy (graph m) sel), JSON_stringify = fragment_text\<rparr>"

definition initial_page :: "Model page" where
  "initial_page =
     \<lparr>model_state = fresh_model, selected = [], cursor = \<lparr>pos_x = 0, pos_y = 0\<rparr>,
      activeElement = None, btnPlay_display = ''inline-block'', btnStop_display = ''none'',
      title = [], console = [], location_hash = [], localStorage = Map.empty,
      clipboardData = None, defaultPrevented = False, calls = []\<rparr>"

section \<open>Runs of the model\<close>

text \<open>A list of commands dispatched one after the other, and undo and redo repeated;
  each stops at the first error.\<close>

fun run :: "command list \<Rightarrow> Model \<Rightarrow> ModelError + Model" where
  "run [] m = Inr m"
| "run (c # cs) m = (case dispatch c m of Inl err \<Rightarrow> Inl err | Inr m' \<Rightarrow> run cs m')"

fun undo_times :: "nat \<Rightarrow> Model \<Rightarrow> HistoryError + Model" where
  "undo_times 0 m = Inr m"
| "undo_times (Suc n) m = (case undo m of Inl err \<Rightarrow> Inl err | Inr m' \<Rightarrow> undo_times n m')"

fun redo_times :: "nat \<Rightarrow> Model \<Rightarrow> HistoryError + Model" where
  "redo_times 0 m = Inr m"
| "redo_times (Suc n) m = (case redo m of Inl err \<Rightarrow> Inl err | Inr m' \<Rightarrow> redo_times n m')"

text \<open>The history of a model is consistent when its undo stack, replayed forward from
  some graph, ends in the graph of the model, its redo stack replays forward from there,
  and every entry undoes what it does.\<close>

fun replays :: "graph \<Rightarrow> entry list \<Rightarrow> graph \<Rightarrow> bool" where
  "replays g0 [] g = (g = g0 \<and> wf_graph g0)"
| "replays g0 (e # es) g =
     (wf_graph g0 \<and>
      (case applyBatch (forward_cmds e) g0 of
         Inl err \<Rightarrow> False
       | Inr (g1, rvs) \<Rightarrow>
           rvs = inverse_cmds e \<and> applyBatch (inverse_cmds e) g1 = Inr (g0, forward_cmds e) \<and>
           replays g1 es g))"

definition consistent :: "Model \<Rightarrow> graph \<Rightarrow> graph \<Rightarrow> bool" where
  "consistent m g0 gf =
     (replays g0 (undo_stack m) (graph m) \<and> replays (graph m) (rev (redo_stack m)) gf)"

text \<open>The states of a Model that a session reaches: from the fresh model by dispatching
  commands, undo, redo, a new document and a successful load.\<close>

inductive reachable :: "Model \<Rightarrow> bool" where
  start: "reachable fresh_model"
| dispatched: "reachable m \<Longrightarrow> dispatch c m = Inr m' \<Longrightarrow> reachable m'"
| undone: "reachable m \<Longrightarrow> undo m = Inr m' \<Longrightarrow> reachable m'"
| redone: "reachable m \<Longrightarrow> redo m = Inr m' \<Longrightarrow> reachable m'"
| created: "reachable m \<Longrightarrow> reachable (new_document m)"
| loaded: "reachable m \<Longrightarrow> load_text t m = (True, m') \<Longrightarrow> reachable m'"

text \<open>A small document for examples: two nodes, an edge between them, a move and a
  parameter change.\<close>

definition demo_node :: "nat \<Rightarrow> string \<Rightarrow> int \<Rightarrow> int \<Rightarrow> node" where
  "demo_node i t x y =
     \<lparr>node_id = i, node_type = t, params = [(''value'', 440)],
      position = \<lparr>pos_x = x, pos_y = y\<rparr>\<rparr>"

definition demo_edge :: edge where
  "demo_edge = \<lparr>edge_id = 2, src_node = 0, src_port = 0, dst_node = 1, dst_port = 0\<rparr>"

definition demo_cmds :: "structural list" where
  "demo_cmds =
     [AddNode (demo_node 1 ''AudioOut'' 110 20), AddNode (demo_node 0 ''Sine'' 10 (- 20)),
      AddEdge demo_edge, MoveNode 0 \<lparr>pos_x = 5, pos_y = 7\<rparr>, SetParameter 0 ''value'' 220]"

text \<open>The nodes and edges that a list of commands adds.\<close>

fun added_nodes :: "structural list \<Rightarrow> node list" where
  "added_nodes [] = []"
| "added_nodes (AddNode n # cs) = n # added_nodes cs"
| "added_nodes (c # cs) = added_nodes cs"

fun added_edges :: "structural list \<Rightarrow> edge list" where
  "added_edges [] = []"
| "added_edges (AddEdge e # cs) = e # added_edges cs"
| "added_edges (c # cs) = added_edges cs"

fun is_add :: "structural \<Rightarrow> bool" where
  "is_add (AddNode n) = True"
| "is_add (AddEdge e) = True"
| "is_add c = False"

text \<open>The example document as a saved text with id counter 3, the model that loads it,
  and its two nodes and edge on the clipboard.\<close>

definition demo_text :: string where
  "demo_text =
     ''NOISECRAFT1;3;2;0;4;Sine1;5;value+220;+5;+7;1;8;AudioOut1;5;value+440;+110;+20;1;2;0;0;1;0;''"

definition demo_model :: Model where
  "demo_model = snd (load_text demo_text fresh_model)"

definition demo_clip :: string where
  "demo_clip = fragment_text (copy (graph demo_model) [0, 1])"

text \<open>The calls a handler added to the record of the page.\<close>

definition new_calls :: "'m page \<Rightarrow> 'm page \<Rightarrow> (call \<times> bool) list" where
  "new_calls pg pg' = drop (length (calls pg)) (calls pg')"

text \<open>The page after the first statement of the load handler, \<open>model.new()\<close>.\<close>

definition after_new :: "('m, 'f, 'x) modules \<Rightarrow> 'm page \<Rightarrow> 'm page" where
  "after_new js pg = (record_call js Model_new pg)\<lparr>model_state := model_new js (model_state pg)\<rparr>"

text \<open>Two pages for examples: one whose storage holds the text of an empty graph with
  counter 5, saved by an earlier session, and one on which playback is running.\<close>

definition saved_page :: "string \<Rightarrow> Model page" where
  "saved_page h =
     initial_page\<lparr>location_hash := h,
                  localStorage := [storage_key \<mapsto> ''NOISECRAFT1;5;0;0;'']\<rparr>"

definition playing_page :: "string \<Rightarrow> Model page" where
  "playing_page h =
     initial_page\<lparr>model_state := play fresh_model, location_hash := h,
                  btnPlay_display := ''none'', btnStop_display := ''inline-block'',
                  title := play_marker\<rparr>"

section \<open>Properties of main.js\<close>

subsection \<open>The statement model.update(action)\<close>

lemma call_update_calls:
  "calls (snd (call_update js a pg)) =
     calls pg @ [(Model_update a, model_playing js (model_state pg))]"
  by (simp add: call_update_def record_call_def split: prod.splits option.splits)

lemma call_update_fst:
  "fst (call_update js a pg) =
     (case fst (model_update js a (model_state pg)) of
        None \<Rightarrow> Return ()
      | Some x \<Rightarrow> Throw x)"
  by (simp add: call_update_def split: prod.splits option.splits)

lemma call_update_fields:
  "console (snd (call_update js a pg)) = console pg"
  "defaultPrevented (snd (call_update js a pg)) = defaultPrevented pg"
  "title (snd (call_update js a pg)) = title pg"
  "btnPlay_display (snd (call_update js a pg)) = btnPlay_display pg"
  "btnStop_display (snd (call_update js a pg)) = btnStop_display pg"
  "localStorage (snd (call_update js a pg)) = localStorage pg"
  "location_hash (snd (call_update js a pg)) = location_hash pg"
  "clipboardData (snd (call_update js a pg)) = clipboardData pg"
  "model_state (snd (call_update js a pg)) = snd (model_update js a (model_state pg))"
  by (simp_all add: call_update_def record_call_def split: prod.splits option.splits)

lemma new_calls_append [simp]: "calls pg' = calls pg @ cs \<Longrightarrow> new_calls pg pg' = cs"
  by (simp add: new_calls_def)

lemma new_calls_self [simp]: "new_calls pg pg = []"
  by (simp add: new_calls_def)

subsection \<open>startPlayback and stopPlayback\<close>

lemma startPlayback_playing:
  "model_playing js (model_state pg) \<Longrightarrow> startPlayback js pg = (Return (), pg)"
  by (simp add: startPlayback_def)

lemma stopPlayback_stopped:
  "\<not> model_playing js (model_state pg) \<Longrightarrow> stopPlayback js pg = (Return (), pg)"
  by (simp add: stopPlayback_def)

lemma startPlayback_stopped:
  assumes "\<not> model_playing js (model_state pg)"
  shows "calls (snd (startPlayback js pg)) = calls pg @ [(Model_update Play, False)]"
    and "model_state (snd (startPlayback js pg)) = snd (model_update js Play (model_state pg))"
    and "fst (startPlayback js pg) =
           (case fst (model_update js Play (model_state pg)) of None \<Rightarrow> Return () | Some x \<Rightarrow> Throw x)"
    and "title (snd (startPlayback js pg)) = play_marker @ document_title pg"
    and "btnPlay_display (snd (startPlayback js pg)) = ''none''"
    and "btnStop_display (snd (startPlayback js pg)) = ''inline-block''"
  using assms
  by (simp_all add: startPlayback_def call_update_calls call_update_fields call_update_fst
      console_log_def)

lemma stopPlayback_playing:
  assumes "model_playing js (model_state pg)"
  shows "calls (snd (stopPlayback js pg)) = calls pg @ [(Model_update Stop, True)]"
    and "model_state (snd (stopPlayback js pg)) = snd (model_update js Stop (model_state pg))"
    and "fst (stopPlayback js pg) =
           (case fst (model_update js Stop (model_state pg)) of None \<Rightarrow> Return () | Some x \<Rightarrow> Throw x)"
    and "title (snd (stopPlayback js pg)) = drop 2 (document_title pg)"
    and "btnPlay_display (snd (stopPlayback js pg)) = ''inline-block''"
    and "btnStop_display (snd (stopPlayback js pg)) = ''none''"
  using assms
  by (simp_all add: stopPlayback_def call_update_calls call_update_fields call_update_fst
      console_log_def)

lemma stopPlayback_keeps:
  "localStorage (snd (stopPlayback js pg)) = localStorage pg"
  "location_hash (snd (stopPlayback js pg)) = location_hash pg"
  "defaultPrevented (snd (stopPlayback js pg)) = defaultPrevented pg"
  by (simp_all add: stopPlayback_def call_update_fields console_log_def)

lemma stopPlayback_calls:
  "calls (snd (stopPlayback js pg)) =
     calls pg @ (if model_playing js (model_state pg) then [(Model_update Stop, True)] else [])"
  by (simp add: stopPlayback_def call_update_calls console_log_def)

lemma stopPlayback_model:
  "model_state (snd (stopPlayback js pg)) =
     (if model_playing js (model_state pg) then snd (model_update js Stop (model_state pg))
      else model_state pg)"
  by (simp add: stopPlayback_def call_update_fields console_log_def)


text \<open>startPlayback and stopPlayback on the Model of the specification.\<close>

lemma update_play: "model_update model_js Play m = (None, play m)"
  by (simp add: model_js_def update_def)

lemma update_stop: "model_update model_js Stop m = (None, stop m)"
  by (simp add: model_js_def update_def)

lemma playing_model_js [simp]: "model_playing model_js m = playing m"
  by (simp add: model_js_def)

lemma startPlayback_model_js:
  assumes "\<not> playing (model_state p)"
  shows "fst (startPlayback model_js p) = Return () \<and>
         model_state (snd (startPlayback model_js p)) =
           (model_state p)\<lparr>playing := True,
                            emitted := emitted (model_state p) @ [PlaybackStarted]\<rparr> \<and>
         startPlayback model_js (snd (startPlayback model_js p))
           = (Return (), snd (startPlayback model_js p))"
proof -
  have np: "\<not> model_playing model_js (model_state p)" using assms by simp
  have m: "model_state (snd (startPlayback model_js p)) = play (model_state p)"
    using startPlayback_stopped(2) [OF np] by (simp add: update_play)
  have f: "fst (startPlayback model_js p) = Return ()"
    using startPlayback_stopped(3) [OF np] by (simp add: update_play)
  have "model_playing model_js (model_state (snd (startPlayback model_js p)))"
    using m assms by (simp add: play_def)
  then have "startPlayback model_js (snd (startPlayback model_js p))
           = (Return (), snd (startPlayback model_js p))"
    by (rule startPlayback_playing)
  with m f assms show ?thesis by (simp add: play_def)
qed

lemma stopPlayback_model_js:
  assumes "playing (model_state p)"
  shows "fst (stopPlayback model_js p) = Return () \<and>
         model_state (snd (stopPlayback model_js p)) =
           (model_state p)\<lparr>playing := False,
                            emitted := emitted (model_state p) @ [PlaybackStopped]\<rparr> \<and>
         stopPlayback model_js (snd (stopPlayback model_js p))
           = (Return (), snd (stopPlayback model_js p))"
proof -
  have np: "model_playing model_js (model_state p)" using assms by simp
  have m: "model_state (snd (stopPlayback model_js p)) = stop (model_state p)"
    using stopPlayback_playing(2) [OF np] by (simp add: update_stop)
  have f: "fst (stopPlayback model_js p) = Return ()"
    using stopPlayback_playing(3) [OF np] by (simp add: update_stop)
  have "\<not> model_playing model_js (model_state (snd (stopPlayback model_js p)))"
    using m assms by (simp add: stop_def)
  then have "stopPlayback model_js (snd (stopPlayback model_js p))
           = (Return (), snd (stopPlayback model_js p))"
    by (rule stopPlayback_stopped)
  with m f assms show ?thesis by (simp add: stop_def)
qed

text \<open>
  C6.  For every model: startPlayback on a Playing model returns the page as it is and
  sends nothing; on a Stopped model it sends exactly one Play action and the page holds
  the model that \<open>update\<close> returned.  stopPlayback is the mirror image.  On the Model of
  the specification, for every page: Play while Stopped returns, the model is the old
  one with \<open>playing\<close> set and exactly one PlaybackStarted added to the notifications,
  and a second Play changes nothing; Play while Playing changes nothing and emits
  nothing, in startPlayback and in the model's own dispatch.  Stop is symmetric, with
  PlaybackStopped.
\<close>

theorem playback_idempotent:
  "(model_playing js (model_state pg) \<longrightarrow> startPlayback js pg = (Return (), pg)) \<and>
   (\<not> model_playing js (model_state pg) \<longrightarrow>
      new_calls pg (snd (startPlayback js pg)) = [(Model_update Play, False)] \<and>
      model_state (snd (startPlayback js pg)) = snd (model_update js Play (model_state pg))) \<and>
   (\<not> model_playing js (model_state pg) \<longrightarrow> stopPlayback js pg = (Return (), pg)) \<and>
   (model_playing js (model_state pg) \<longrightarrow>
      new_calls pg (snd (stopPlayback js pg)) = [(Model_update Stop, True)] \<and>
      model_state (snd (stopPlayback js pg)) = snd (model_update js Stop (model_state pg))) \<and>
   (\<not> playing (model_state p) \<longrightarrow>
      fst (startPlayback model_js p) = Return () \<and>
      model_state (snd (startPlayback model_js p)) =
        (model_state p)\<lparr>playing := True,
                         emitted := emitted (model_state p) @ [PlaybackStarted]\<rparr> \<and>
      startPlayback model_js (snd (startPlayback model_js p))
        = (Return (), snd (startPlayback model_js p))) \<and>
   (playing (model_state p) \<longrightarrow>
      startPlayback model_js p = (Return (), p) \<and> dispatch Play (model_state p) = Inr (model_state p)) \<and>
   (playing (model_state p) \<longrightarrow>
      fst (stopPlayback model_js p) = Return () \<and>
      model_state (snd (stopPlayback model_js p)) =
        (model_state p)\<lparr>playing := False,
                         emitted := emitted (model_state p) @ [PlaybackStopped]\<rparr> \<and>
      stopPlayback model_js (snd (stopPlayback model_js p))
        = (Return (), snd (stopPlayback model_js p))) \<and>
   (\<not> playing (model_state p) \<longrightarrow>
      stopPlayback model_js p = (Return (), p) \<and> dispatch Stop (model_state p) = Inr (model_state p))"
proof (intro conjI impI)
  assume "\<not> playing (model_state p)"
  from startPlayback_model_js [OF this]
  show "fst (startPlayback model_js p) = Return ()"
    "model_state (snd (startPlayback model_js p)) =
        (model_state p)\<lparr>playing := True,
                         emitted := emitted (model_state p) @ [PlaybackStarted]\<rparr>"
    "startPlayback model_js (snd (startPlayback model_js p))
        = (Return (), snd (startPlayback model_js p))"
    by simp_all
next
  assume "playing (model_state p)"
  from stopPlayback_model_js [OF this]
  show "fst (stopPlayback model_js p) = Return ()"
    "model_state (snd (stopPlayback model_js p)) =
        (model_state p)\<lparr>playing := False,
                         emitted := emitted (model_state p) @ [PlaybackStopped]\<rparr>"
    "stopPlayback model_js (snd (stopPlayback model_js p))
        = (Return (), snd (stopPlayback model_js p))"
    by simp_all
qed (simp_all add: startPlayback_playing stopPlayback_stopped startPlayback_stopped
      stopPlayback_playing play_def stop_def)

text \<open>From the initial page Play emits one PlaybackStarted; on a Playing page Stop
  emits one PlaybackStopped and Play does nothing.\<close>

theorem playback_idempotent_witness:
  "\<not> playing (model_state initial_page) \<and>
   fst (startPlayback model_js initial_page) = Return () \<and>
   playing (model_state (snd (startPlayback model_js initial_page))) \<and>
   emitted (model_state (snd (startPlayback model_js initial_page))) = [PlaybackStarted] \<and>
   new_calls initial_page (snd (startPlayback model_js initial_page)) = [(Model_update Play, False)] \<and>
   startPlayback model_js (snd (startPlayback model_js initial_page))
     = (Return (), snd (startPlayback model_js initial_page)) \<and>
   playing (model_state (playing_page [])) \<and>
   fst (stopPlayback model_js (playing_page [])) = Return () \<and>
   \<not> playing (model_state (snd (stopPlayback model_js (playing_page [])))) \<and>
   emitted (model_state (snd (stopPlayback model_js (playing_page []))))
     = [PlaybackStarted, PlaybackStopped] \<and>
   startPlayback model_js (playing_page []) = (Return (), playing_page [])"
proof -
  have h1: "\<not> playing (model_state initial_page)"
    "\<not> model_playing model_js (model_state initial_page)"
    by (simp_all add: model_js_def initial_page_def fresh_model_def)
  have h2: "playing (model_state (playing_page []))"
    by (simp add: playing_page_def play_def fresh_model_def)
  from playback_idempotent [of model_js initial_page initial_page] h1
  have a: "fst (startPlayback model_js initial_page) = Return ()"
    "model_state (snd (startPlayback model_js initial_page)) =
        (model_state initial_page)\<lparr>playing := True,
           emitted := emitted (model_state initial_page) @ [PlaybackStarted]\<rparr>"
    "new_calls initial_page (snd (startPlayback model_js initial_page)) = [(Model_update Play, False)]"
    "startPlayback model_js (snd (startPlayback model_js initial_page))
        = (Return (), snd (startPlayback model_js initial_page))"
    by (simp_all add: update_play play_def)
  from playback_idempotent [of model_js "playing_page []" "playing_page []"] h2
  have b: "fst (stopPlayback model_js (playing_page [])) = Return ()"
    "model_state (snd (stopPlayback model_js (playing_page []))) =
        (model_state (playing_page []))\<lparr>playing := False,
           emitted := emitted (model_state (playing_page [])) @ [PlaybackStopped]\<rparr>"
    "startPlayback model_js (playing_page []) = (Return (), playing_page [])"
    by (simp_all add: update_stop stop_def)
  show ?thesis
    using h1(1) h2 a b
    by (simp add: initial_page_def fresh_model_def playing_page_def play_def)
qed

subsection \<open>importModel and the load handler\<close>

lemma importModel_calls:
  "calls (snd (importModel js t pg)) =
     calls (snd (stopPlayback js pg)) @
       (case fst (stopPlayback js pg) of
          Throw x \<Rightarrow> []
        | Return u \<Rightarrow>
            [(Model_deserialize t, model_playing js (model_state (snd (stopPlayback js pg))))])"
  by (cases "stopPlayback js pg"; cases "fst (stopPlayback js pg)")
     (auto simp: importModel_def record_call_def split: prod.splits)

lemma importModel_keeps:
  "localStorage (snd (importModel js t pg)) = localStorage pg"
  "location_hash (snd (importModel js t pg)) = location_hash pg"
proof -
  have "localStorage (snd (importModel js t pg)) = localStorage (snd (stopPlayback js pg)) \<and>
        location_hash (snd (importModel js t pg)) = location_hash (snd (stopPlayback js pg))"
    by (cases "stopPlayback js pg"; cases "fst (stopPlayback js pg)")
       (auto simp: importModel_def record_call_def split: prod.splits)
  then show "localStorage (snd (importModel js t pg)) = localStorage pg"
    "location_hash (snd (importModel js t pg)) = location_hash pg"
    by (simp_all add: stopPlayback_keeps)
qed

lemma importModel_model:
  "fst (stopPlayback js pg) = Return u \<Longrightarrow>
   model_state (snd (importModel js t pg)) =
     snd (model_deserialize js t (model_state (snd (stopPlayback js pg)))) \<and>
   fst (importModel js t pg) =
     Return (fst (model_deserialize js t (model_state (snd (stopPlayback js pg)))))"
  by (cases "stopPlayback js pg") (auto simp: importModel_def record_call_def split: prod.splits)

lemma importModel_new_calls:
  "new_calls pg (snd (importModel js t pg)) =
     (if model_playing js (model_state pg) then [(Model_update Stop, True)] else []) @
     (case fst (stopPlayback js pg) of
        Throw x \<Rightarrow> []
      | Return u \<Rightarrow>
          [(Model_deserialize t, model_playing js (model_state (snd (stopPlayback js pg))))])"
  by (rule new_calls_append) (simp add: importModel_calls stopPlayback_calls)

lemma onload_hash:
  "location_hash pg \<noteq> [] \<Longrightarrow>
   onload js pg =
     (Return (),
      if location_hash pg = ''#new''
      then (record_call js History_replaceState (after_new js pg))\<lparr>location_hash := []\<rparr>
      else after_new js pg)"
  by (simp add: onload_def after_new_def record_call_def Let_def)

lemma onload_no_hash:
  "location_hash pg = [] \<Longrightarrow>
   onload js pg =
     (let pg2 = record_call js (Storage_getItem storage_key) (after_new js pg) in
      case localStorage pg storage_key of
        None \<Rightarrow> (Return (), pg2)
      | Some t \<Rightarrow>
          if t = [] then (Return (), pg2)
          else
            (case importModel js t pg2 of
               (Throw x, pg3) \<Rightarrow> (Throw x, pg3)
             | (Return ok, pg3) \<Rightarrow>
                 if ok then (Return (), console_log ''model restored from previous session'' pg3)
                 else (Return (), console_warn ''could not restore model from previous session'' pg3)))"
  by (simp add: onload_def after_new_def record_call_def Let_def)

lemma onload_storage: "localStorage (snd (onload js pg)) = localStorage pg"
proof (cases "location_hash pg = []")
  case False
  then show ?thesis by (simp add: onload_hash after_new_def record_call_def)
next
  case True
  let ?pg2 = "record_call js (Storage_getItem storage_key) (after_new js pg)"
  have s2: "localStorage ?pg2 = localStorage pg" by (simp add: after_new_def record_call_def)
  show ?thesis
  proof (cases "localStorage pg storage_key")
    case None
    with True s2 show ?thesis by (simp add: onload_no_hash Let_def)
  next
    case (Some t)
    have "localStorage (snd (importModel js t ?pg2)) = localStorage pg"
      by (simp add: importModel_keeps s2)
    with True Some s2 show ?thesis
      by (cases "importModel js t ?pg2"; cases "fst (importModel js t ?pg2)")
         (auto simp: onload_no_hash Let_def console_log_def console_warn_def split: if_splits)
  qed
qed


lemma after_new_calls:
  "calls (record_call js (Storage_getItem storage_key) (after_new js pg)) =
     calls pg @ [(Model_new, model_playing js (model_state pg)),
       (Storage_getItem storage_key, model_playing js (model_new js (model_state pg)))]"
  by (simp add: after_new_def record_call_def)

lemma onload_new_calls:
  "new_calls pg (snd (onload js pg)) =
     (if location_hash pg \<noteq> [] then
        (Model_new, model_playing js (model_state pg)) #
        (if location_hash pg = ''#new''
         then [(History_replaceState, model_playing js (model_new js (model_state pg)))] else [])
      else
        [(Model_new, model_playing js (model_state pg)),
         (Storage_getItem storage_key, model_playing js (model_new js (model_state pg)))] @
        (case localStorage pg storage_key of
           None \<Rightarrow> []
         | Some t \<Rightarrow>
             if t = [] then []
             else new_calls (record_call js (Storage_getItem storage_key) (after_new js pg))
                     (snd (importModel js t
                        (record_call js (Storage_getItem storage_key) (after_new js pg))))))"
proof (cases "location_hash pg = []")
  case False
  then show ?thesis
    by (simp add: onload_hash after_new_def record_call_def new_calls_def)
next
  case True
  let ?pg2 = "record_call js (Storage_getItem storage_key) (after_new js pg)"
  note c2 = after_new_calls [of js pg]
  show ?thesis
  proof (cases "localStorage pg storage_key")
    case None
    with True c2 show ?thesis by (simp add: onload_no_hash Let_def new_calls_def)
  next
    case (Some t)
    show ?thesis
    proof (cases "t = []")
      case True
      with \<open>location_hash pg = []\<close> Some c2 show ?thesis
        by (simp add: onload_no_hash Let_def new_calls_def)
    next
      case False
      obtain cs where cs: "calls (snd (importModel js t ?pg2)) = calls ?pg2 @ cs"
        by (simp add: importModel_calls stopPlayback_calls)
      have "calls (snd (onload js pg)) = calls (snd (importModel js t ?pg2))"
        using \<open>location_hash pg = []\<close> Some False
        by (cases "importModel js t ?pg2"; cases "fst (importModel js t ?pg2)")
           (auto simp: onload_no_hash Let_def console_log_def console_warn_def)
      with cs c2 \<open>location_hash pg = []\<close> Some False show ?thesis
        by (simp add: new_calls_def)
    qed
  qed
qed

lemma importModel_deserialize_calls:
  "(Model_deserialize t', b) \<in> set (new_calls pg (snd (importModel js t pg))) \<Longrightarrow>
   t' = t \<and> b = model_playing js (model_state (snd (stopPlayback js pg)))"
  by (cases "fst (stopPlayback js pg)") (auto simp: importModel_new_calls split: if_splits)

lemma stopPlayback_not_playing:
  assumes "\<And>m. model_playing js m \<Longrightarrow> \<not> model_playing js (snd (model_update js Stop m))"
  shows "\<not> model_playing js (model_state (snd (stopPlayback js pg)))"
  using assms by (simp add: stopPlayback_model)

lemma onload_deserialize_calls:
  assumes "(Model_deserialize t', b) \<in> set (new_calls pg (snd (onload js pg)))"
  shows "location_hash pg = [] \<and> localStorage pg storage_key = Some t' \<and> t' \<noteq> [] \<and>
         b = model_playing js (model_state (snd (stopPlayback js
               (record_call js (Storage_getItem storage_key) (after_new js pg)))))"
proof -
  let ?pg2 = "record_call js (Storage_getItem storage_key) (after_new js pg)"
  from assms have h: "location_hash pg = []"
    by (auto simp: onload_new_calls split: if_splits)
  show ?thesis
  proof (cases "localStorage pg storage_key")
    case None
    with assms h show ?thesis by (simp add: onload_new_calls)
  next
    case (Some t)
    with assms h have t: "t \<noteq> []"
      and m: "(Model_deserialize t', b) \<in> set (new_calls ?pg2 (snd (importModel js t ?pg2)))"
      by (auto simp: onload_new_calls split: if_splits)
    from importModel_deserialize_calls [OF m] h t Some show ?thesis by simp
  qed
qed


lemma onload_imports:
  assumes "location_hash pg = []" "localStorage pg storage_key = Some t" "t \<noteq> []"
    "\<not> model_playing js (model_new js (model_state pg))"
  shows "map fst (new_calls pg (snd (onload js pg))) =
           [Model_new, Storage_getItem storage_key, Model_deserialize t] \<and>
         model_state (snd (onload js pg)) =
           snd (model_deserialize js t (model_new js (model_state pg)))"
proof -
  let ?pg2 = "record_call js (Storage_getItem storage_key) (after_new js pg)"
  have np: "\<not> model_playing js (model_state ?pg2)"
    using assms(4) by (simp add: after_new_def record_call_def)
  then have sp: "stopPlayback js ?pg2 = (Return (), ?pg2)"
    by (simp add: stopPlayback_def)
  from assms np sp have c: "map fst (new_calls pg (snd (onload js pg))) =
          [Model_new, Storage_getItem storage_key, Model_deserialize t]"
    by (simp add: onload_new_calls importModel_new_calls)
  have im: "model_state (snd (importModel js t ?pg2)) =
      snd (model_deserialize js t (model_state ?pg2))"
    using importModel_model [of js ?pg2 "()" t] sp by simp
  have "model_state (snd (onload js pg)) = model_state (snd (importModel js t ?pg2))"
    using assms(1-3)
    by (cases "importModel js t ?pg2"; cases "fst (importModel js t ?pg2)")
       (auto simp: onload_no_hash Let_def console_log_def console_warn_def)
  with im c show ?thesis
    by (simp add: after_new_def record_call_def)
qed

text \<open>
  C10.  The load handler first creates a blank document with \<open>model.new()\<close> and never
  writes the local storage.  It hands a text to \<open>model.deserialize\<close> only when the hash
  of the location is empty and the key latestModelData holds that text.  With a hash it
  returns after \<open>model.new()\<close>: the storage is not read, the model is the blank one,
  and the hash #new is taken off the location while any other hash stays.  Without a
  hash, and with a non-empty text under the key, the calls are new, getItem and
  deserialize of that text, and the page holds the model deserialize returned (the model
  not Playing after \<open>new\<close>, so that stopPlayback has nothing to do).
\<close>

theorem onload_restores_session:
  "localStorage (snd (onload js pg)) = localStorage pg \<and>
   (\<exists>cs. map fst (new_calls pg (snd (onload js pg))) = Model_new # cs) \<and>
   (\<forall>t. Model_deserialize t \<in> fst ` set (new_calls pg (snd (onload js pg))) \<longrightarrow>
        location_hash pg = [] \<and> localStorage pg storage_key = Some t) \<and>
   (location_hash pg \<noteq> [] \<longrightarrow>
        fst (onload js pg) = Return () \<and>
        model_state (snd (onload js pg)) = model_new js (model_state pg) \<and>
        Storage_getItem storage_key \<notin> fst ` set (new_calls pg (snd (onload js pg))) \<and>
        location_hash (snd (onload js pg)) =
          (if location_hash pg = ''#new'' then [] else location_hash pg)) \<and>
   (location_hash pg = [] \<and> localStorage pg storage_key = Some t \<and> t \<noteq> [] \<and>
    \<not> model_playing js (model_new js (model_state pg)) \<longrightarrow>
        map fst (new_calls pg (snd (onload js pg))) =
          [Model_new, Storage_getItem storage_key, Model_deserialize t] \<and>
        model_state (snd (onload js pg)) =
          snd (model_deserialize js t (model_new js (model_state pg))))"
proof (intro conjI allI impI)
  show "localStorage (snd (onload js pg)) = localStorage pg" by (rule onload_storage)
  show "\<exists>cs. map fst (new_calls pg (snd (onload js pg))) = Model_new # cs"
    by (simp add: onload_new_calls)
next
  fix t' assume "Model_deserialize t' \<in> fst ` set (new_calls pg (snd (onload js pg)))"
  then obtain b where "(Model_deserialize t', b) \<in> set (new_calls pg (snd (onload js pg)))"
    by auto
  from onload_deserialize_calls [OF this]
  show "location_hash pg = []" "localStorage pg storage_key = Some t'" by simp_all
next
  assume h: "location_hash pg \<noteq> []"
  then show "fst (onload js pg) = Return ()"
    "model_state (snd (onload js pg)) = model_new js (model_state pg)"
    "location_hash (snd (onload js pg)) = (if location_hash pg = ''#new'' then [] else location_hash pg)"
    by (simp_all add: onload_hash after_new_def record_call_def)
  from h show "Storage_getItem storage_key \<notin> fst ` set (new_calls pg (snd (onload js pg)))"
    by (auto simp: onload_new_calls)
next
  assume a: "location_hash pg = [] \<and> localStorage pg storage_key = Some t \<and> t \<noteq> [] \<and>
    \<not> model_playing js (model_new js (model_state pg))"
  then show "map fst (new_calls pg (snd (onload js pg))) =
          [Model_new, Storage_getItem storage_key, Model_deserialize t]"
    "model_state (snd (onload js pg)) =
          snd (model_deserialize js t (model_new js (model_state pg)))"
    using onload_imports [of pg t js] by simp_all
qed

text \<open>With the hash #new the saved text stays in the storage and the graph is empty;
  without a hash the saved text is deserialized and the graph is the saved one.\<close>

theorem onload_restores_session_witness:
  "location_hash (snd (onload model_js (saved_page ''#new''))) = [] \<and>
   localStorage (snd (onload model_js (saved_page ''#new''))) storage_key = Some ''NOISECRAFT1;5;0;0;'' \<and>
   graph (model_state (snd (onload model_js (saved_page ''#new'')))) = empty_graph \<and>
   map fst (new_calls (saved_page []) (snd (onload model_js (saved_page [])))) =
     [Model_new, Storage_getItem storage_key, Model_deserialize ''NOISECRAFT1;5;0;0;''] \<and>
   graph (model_state (snd (onload model_js (saved_page [])))) =
     \<lparr>nodes = [], edges = [], next_id = 5\<rparr>"
proof -
  have h1: "location_hash (saved_page ''#new'') \<noteq> []"
    by (simp add: saved_page_def)
  have h2: "location_hash (saved_page []) = [] \<and>
      localStorage (saved_page []) storage_key = Some ''NOISECRAFT1;5;0;0;'' \<and>
      ''NOISECRAFT1;5;0;0;'' \<noteq> [] \<and>
      \<not> model_playing model_js (model_new model_js (model_state (saved_page [])))"
    by (simp add: saved_page_def model_js_def new_document_def replace_document_def stop_def)
  have d: "deserialize ''NOISECRAFT1;5;0;0;'' = Inr \<lparr>nodes = [], edges = [], next_id = 5\<rparr>"
    by code_simp
  from onload_restores_session [of model_js "saved_page ''#new''"] h1
  have a: "location_hash (snd (onload model_js (saved_page ''#new''))) = []"
    "localStorage (snd (onload model_js (saved_page ''#new''))) = localStorage (saved_page ''#new'')"
    "model_state (snd (onload model_js (saved_page ''#new''))) = model_new model_js (model_state (saved_page ''#new''))"
    by (simp_all add: saved_page_def)
  from onload_restores_session [of model_js "saved_page []" "''NOISECRAFT1;5;0;0;''"] h2
  have b: "map fst (new_calls (saved_page []) (snd (onload model_js (saved_page [])))) =
     [Model_new, Storage_getItem storage_key, Model_deserialize ''NOISECRAFT1;5;0;0;'']"
    "model_state (snd (onload model_js (saved_page []))) =
       snd (model_deserialize model_js ''NOISECRAFT1;5;0;0;'' (model_new model_js (model_state (saved_page []))))"
    by blast+
  show ?thesis
    using a b d by (simp add: saved_page_def model_js_def new_document_def load_text_def replace_document_def stop_def)
qed













subsection \<open>The paste handler\<close>

text \<open>
  C9.  When \<open>model.update(new Paste(...))\<close> throws in the paste handler, whatever the
  model is and whatever it throws, the handler returns normally: the exception is
  caught and dropped.  Nothing is written to the console, the title and the buttons
  stay as they are, and \<open>preventDefault\<close> is not called, so the browser's own paste
  goes on.
\<close>

theorem onpaste_discards_exception:
  assumes "fst (model_update js (Paste text (cursor pg)) (model_state pg)) = Some x"
  shows "fst (onpaste js text pg) = Return () \<and>
         defaultPrevented (snd (onpaste js text pg)) = defaultPrevented pg \<and>
         console (snd (onpaste js text pg)) = console pg \<and>
         title (snd (onpaste js text pg)) = title pg \<and>
         btnPlay_display (snd (onpaste js text pg)) = btnPlay_display pg \<and>
         btnStop_display (snd (onpaste js text pg)) = btnStop_display pg"
proof (cases "isAnyInputActive pg")
  case True
  then show ?thesis by (simp add: onpaste_def)
next
  case False
  from assms have "fst (call_update js (Paste text (cursor pg)) pg) = Throw x"
    by (simp add: call_update_fst)
  then obtain pg1 where c: "call_update js (Paste text (cursor pg)) pg = (Throw x, pg1)"
    by (cases "call_update js (Paste text (cursor pg)) pg") auto
  have "pg1 = snd (call_update js (Paste text (cursor pg)) pg)"
    using c by simp
  then have "defaultPrevented pg1 = defaultPrevented pg" "console pg1 = console pg"
    "title pg1 = title pg" "btnPlay_display pg1 = btnPlay_display pg"
    "btnStop_display pg1 = btnStop_display pg"
    by (simp_all add: call_update_fields)
  with False c show ?thesis by (simp add: onpaste_def)
qed

text \<open>On the Model of the specification a clipboard text that is no fragment makes
  \<open>update\<close> throw a FormatError; the handler returns and prevents nothing.\<close>

theorem onpaste_discards_exception_witness:
  "fst (model_update model_js (Paste ''garbage'' (cursor initial_page)) (model_state initial_page))
     = Some (FormatFailure SyntaxViolation) \<and>
   fst (onpaste model_js ''garbage'' initial_page) = Return () \<and>
   \<not> defaultPrevented (snd (onpaste model_js ''garbage'' initial_page)) \<and>
   console (snd (onpaste model_js ''garbage'' initial_page)) = []"
proof -
  have h: "fst (model_update model_js (Paste ''garbage'' (cursor initial_page))
                (model_state initial_page)) = Some (FormatFailure SyntaxViolation)"
    by code_simp
  from onpaste_discards_exception [OF h] h show ?thesis
    by (simp add: initial_page_def)
qed

section \<open>Properties of the document model\<close>

subsection \<open>Lists ordered by a key\<close>

lemma find_key:
  "distinct (map f xs) \<Longrightarrow> x \<in> set xs \<Longrightarrow> List.find (\<lambda>y. f y = f x) xs = Some x"
  by (induction xs) (auto simp: image_iff)

lemma find_key_Some:
  "List.find (\<lambda>y. f y = k) xs = Some x \<Longrightarrow> x \<in> set xs \<and> f x = k"
  by (induction xs) (auto split: if_splits)

lemma find_key_None:
  "List.find (\<lambda>y. f y = k) xs = None \<longleftrightarrow> k \<notin> f ` set xs"
  by (induction xs) auto

lemma filter_key:
  "distinct (map f xs) \<Longrightarrow> x \<in> set xs \<Longrightarrow> filter (\<lambda>y. f x = f y) xs = [x]"
  by (induction xs) (auto simp: image_iff filter_empty_conv)

lemma key_notin_remove1:
  "distinct (map f xs) \<Longrightarrow> x \<in> set xs \<Longrightarrow> f x \<notin> f ` set (remove1 x xs)"
  by (induction xs) (auto simp: image_iff)

lemma distinct_map_remove1:
  "distinct (map f xs) \<Longrightarrow> distinct (map f (remove1 x xs))"
  by (induction xs) (auto simp: image_iff dest: notin_set_remove1)

lemma distinct_map_insort_key:
  "distinct (map h xs) \<Longrightarrow> h x \<notin> h ` set xs \<Longrightarrow> distinct (map h (insort_key f x xs))"
  by (auto simp: distinct_map distinct_insort set_insort_key)

lemma insort_remove1_key:
  assumes "sorted (map f xs)" "distinct (map f xs)" "x \<in> set xs"
  shows "insort_key f x (remove1 x xs) = xs"
  using assms by (intro insort_key_remove1) (simp_all add: filter_key)

subsection \<open>The GraphStore keeps the invariants and every command has its inverse\<close>

lemma wf_graph_iff:
  "wf_graph g \<longleftrightarrow>
     sorted (map node_id (nodes g)) \<and> distinct (map node_id (nodes g)) \<and>
     sorted (map edge_id (edges g)) \<and> distinct (map edge_id (edges g)) \<and>
     (\<forall>e \<in> set (edges g). src_node e \<in> node_id ` set (nodes g) \<and>
        dst_node e \<in> node_id ` set (nodes g) \<and> src_node e \<noteq> dst_node e) \<and>
     distinct (map (\<lambda>e. (dst_node e, dst_port e)) (edges g))"
  by (auto simp: wf_graph_def node_ids_def edge_ids_def edge_ok_def list_all_iff)

lemma update_node_ids:
  "(\<And>m. node_id (f m) = node_id m) \<Longrightarrow> map node_id (update_node i f ns) = map node_id ns"
  by (induction ns) (auto simp: update_node_def)

lemma update_node_set_ids:
  "(\<And>m. node_id (f m) = node_id m) \<Longrightarrow> node_id ` set (update_node i f ns) = node_id ` set ns"
  using update_node_ids [of f i ns] by (metis list.set_map)

lemma update_node_back:
  assumes "distinct (map node_id ns)" "n \<in> set ns" "node_id n = i" "h (f n) = n"
    "\<And>m. node_id (f m) = node_id m"
  shows "update_node i h (update_node i f ns) = ns"
  using assms(1,2)
proof (induction ns)
  case Nil
  then show ?case by (simp add: update_node_def)
next
  case (Cons a ns)
  show ?case
  proof (cases "a = n")
    case True
    then have "i \<notin> node_id ` set ns" using Cons.prems assms(3) by auto
    then have "update_node i h (update_node i f ns) = ns"
      by (induction ns) (auto simp: update_node_def)
    with True assms(3,4,5) show ?thesis by (simp add: update_node_def)
  next
    case False
    with Cons.prems have "n \<in> set ns" "node_id a \<noteq> i" using assms(3) by (auto simp: image_iff)
    with Cons show ?thesis by (simp add: update_node_def)
  qed
qed

lemma find_update_node:
  assumes "List.find (\<lambda>m. node_id m = i) ns = Some n" "\<And>m. node_id (f m) = node_id m"
  shows "List.find (\<lambda>m. node_id m = i) (update_node i f ns) = Some (f n)"
  using assms by (induction ns) (auto simp: update_node_def split: if_splits)

lemma alist_update_back:
  "map_of ps k = Some v0 \<Longrightarrow> AList.update k v0 (AList.update k v ps) = ps"
  by (simp add: update_triv)

lemma wf_preserved:
  assumes "wf_graph g" "applyStructural c g = Inr (g', rv)"
  shows "wf_graph g'"
proof (cases c)
  case (AddNode n)
  with assms show ?thesis
    by (auto simp: wf_graph_iff node_ids_def sorted_insort_key distinct_map_insort_key
        set_insort_key split: if_splits)
next
  case (RemoveNode i)
  with assms obtain n where n: "find_node i g = Some n" "\<not> list_ex (incident i) (edges g)"
    "g' = g\<lparr>nodes := remove1 n (nodes g)\<rparr>"
    by (auto split: option.splits if_splits)
  from n(1) have ni: "n \<in> set (nodes g)" "node_id n = i"
    using find_key_Some [of node_id i "nodes g" n] by (simp_all add: find_node_def)
  have "\<And>e. e \<in> set (edges g) \<Longrightarrow> src_node e \<noteq> i \<and> dst_node e \<noteq> i"
    using n(2) by (auto simp: list_ex_iff incident_def)
  moreover have "\<And>k. k \<in> node_id ` set (nodes g) \<Longrightarrow> k \<noteq> i \<Longrightarrow> k \<in> node_id ` set (remove1 n (nodes g))"
    using ni by (metis (no_types, lifting) image_iff in_set_remove1)
  ultimately show ?thesis
    using assms(1) n(3)
    by (auto simp: wf_graph_iff sorted_map_remove1 distinct_map_remove1)
next
  case (AddEdge e)
  with assms have e: "edge_id e \<notin> edge_id ` set (edges g)"
    "src_node e \<in> node_id ` set (nodes g)" "dst_node e \<in> node_id ` set (nodes g)"
    "src_node e \<noteq> dst_node e" "\<not> port_taken e g"
    "g' = g\<lparr>edges := insort_key edge_id e (edges g)\<rparr>"
    by (auto simp: node_ids_def edge_ids_def split: if_splits)
  from e(5) have "(dst_node e, dst_port e) \<notin> (\<lambda>e. (dst_node e, dst_port e)) ` set (edges g)"
    by (auto simp: port_taken_def list_ex_iff)
  with assms(1) have "distinct (map (\<lambda>e. (dst_node e, dst_port e)) (insort_key edge_id e (edges g)))"
    by (intro distinct_map_insort_key) (simp_all add: wf_graph_iff)
  moreover from assms(1) e(1) have "distinct (map edge_id (insort_key edge_id e (edges g)))"
    by (intro distinct_map_insort_key) (simp_all add: wf_graph_iff)
  ultimately show ?thesis
    using assms(1) e
    by (auto simp: wf_graph_iff sorted_insort_key set_insort_key)
next
  case (RemoveEdge i)
  with assms obtain e where e: "find_edge i g = Some e" "g' = g\<lparr>edges := remove1 e (edges g)\<rparr>"
    by (auto split: option.splits)
  show ?thesis
    using assms(1) e(2)
    by (auto simp: wf_graph_iff sorted_map_remove1 distinct_map_remove1 dest: notin_set_remove1)
next
  case (MoveNode i p)
  with assms obtain n where "g' = g\<lparr>nodes := update_node i (\<lambda>m. m\<lparr>position := p\<rparr>) (nodes g)\<rparr>"
    by (auto split: option.splits)
  with assms(1) show ?thesis
    by (simp add: wf_graph_iff update_node_ids update_node_set_ids)
next
  case (SetParameter i k v)
  with assms obtain n where
    "g' = g\<lparr>nodes := update_node i (\<lambda>m. m\<lparr>params := AList.update k v (params m)\<rparr>) (nodes g)\<rparr>"
    by (auto split: option.splits)
  with assms(1) show ?thesis
    by (simp add: wf_graph_iff update_node_ids update_node_set_ids)
qed

lemma apply_inverse:
  assumes wf: "wf_graph g" and ap: "applyStructural c g = Inr (g', rv)"
  shows "applyStructural rv g' = Inr (g, c)"
proof (cases c)
  case (AddNode n)
  with ap have n: "node_id n \<notin> node_id ` set (nodes g)"
    "g' = g\<lparr>nodes := insort_key node_id n (nodes g)\<rparr>" "rv = RemoveNode (node_id n)"
    by (auto simp: node_ids_def split: if_splits)
  have d: "distinct (map node_id (insort_key node_id n (nodes g)))"
    using wf n(1) by (intro distinct_map_insort_key) (simp_all add: wf_graph_iff)
  have f: "find_node (node_id n) g' = Some n"
    unfolding find_node_def n(2) using find_key [OF d, of n] by (simp add: set_insort_key)
  have "\<not> list_ex (incident (node_id n)) (edges g)"
    using wf n(1) unfolding wf_graph_iff list_ex_iff incident_def by metis
  with f n AddNode show ?thesis by simp
next
  case (RemoveNode i)
  with ap obtain n where n: "find_node i g = Some n" "\<not> list_ex (incident i) (edges g)"
    "g' = g\<lparr>nodes := remove1 n (nodes g)\<rparr>" "rv = AddNode n"
    by (auto split: option.splits if_splits)
  from n(1) have ni: "n \<in> set (nodes g)" "node_id n = i"
    using find_key_Some [of node_id i "nodes g" n] by (simp_all add: find_node_def)
  have a: "node_id n \<notin> node_id ` set (remove1 n (nodes g))"
    using wf ni(1) by (intro key_notin_remove1) (simp_all add: wf_graph_iff)
  have b: "insort_key node_id n (remove1 n (nodes g)) = nodes g"
    using wf ni(1) by (intro insort_remove1_key) (simp_all add: wf_graph_iff)
  from a b n ni RemoveNode show ?thesis by (simp add: node_ids_def)
next
  case (AddEdge e)
  with ap have e: "edge_id e \<notin> edge_id ` set (edges g)"
    "g' = g\<lparr>edges := insort_key edge_id e (edges g)\<rparr>" "rv = RemoveEdge (edge_id e)"
    by (auto simp: edge_ids_def split: if_splits)
  have d: "distinct (map edge_id (insort_key edge_id e (edges g)))"
    using wf e(1) by (intro distinct_map_insort_key) (simp_all add: wf_graph_iff)
  have f: "find_edge (edge_id e) g' = Some e"
    unfolding find_edge_def e(2) using find_key [OF d, of e] by (simp add: set_insort_key)
  with e AddEdge show ?thesis by simp
next
  case (RemoveEdge i)
  with ap obtain e where e: "find_edge i g = Some e"
    "g' = g\<lparr>edges := remove1 e (edges g)\<rparr>" "rv = AddEdge e"
    by (auto split: option.splits)
  from e(1) have ei: "e \<in> set (edges g)" "edge_id e = i"
    using find_key_Some [of edge_id i "edges g" e] by (simp_all add: find_edge_def)
  have a: "edge_id e \<notin> edge_id ` set (remove1 e (edges g))"
    using wf ei(1) by (intro key_notin_remove1) (simp_all add: wf_graph_iff)
  have b: "insort_key edge_id e (remove1 e (edges g)) = edges g"
    using wf ei(1) by (intro insort_remove1_key) (simp_all add: wf_graph_iff)
  have "(dst_node e, dst_port e) \<notin> (\<lambda>e. (dst_node e, dst_port e)) ` set (remove1 e (edges g))"
    using wf ei(1) by (intro key_notin_remove1) (simp_all add: wf_graph_iff)
  then have c: "\<not> port_taken e g'"
    unfolding e(2) by (auto simp: port_taken_def list_ex_iff image_iff)
  have ok: "src_node e \<in> node_id ` set (nodes g)" "dst_node e \<in> node_id ` set (nodes g)"
    "src_node e \<noteq> dst_node e"
    using wf ei(1) by (auto simp: wf_graph_iff)
  from a b c ok e ei RemoveEdge show ?thesis by (simp add: node_ids_def edge_ids_def)
next
  case (MoveNode i p)
  with ap obtain n where n: "find_node i g = Some n"
    "g' = g\<lparr>nodes := update_node i (\<lambda>m. m\<lparr>position := p\<rparr>) (nodes g)\<rparr>"
    "rv = MoveNode i (position n)"
    by (auto split: option.splits)
  from n(1) have ni: "n \<in> set (nodes g)" "node_id n = i"
    using find_key_Some [of node_id i "nodes g" n] by (simp_all add: find_node_def)
  have f: "find_node i g' = Some (n\<lparr>position := p\<rparr>)"
    unfolding find_node_def n(2) using find_update_node [of i "nodes g" n "\<lambda>m. m\<lparr>position := p\<rparr>"] n(1)
    by (simp add: find_node_def)
  have b: "update_node i (\<lambda>m. m\<lparr>position := position n\<rparr>)
             (update_node i (\<lambda>m. m\<lparr>position := p\<rparr>) (nodes g)) = nodes g"
    using wf ni by (intro update_node_back [where n = n]) (simp_all add: wf_graph_iff)
  from f b n MoveNode show ?thesis by simp
next
  case (SetParameter i k v)
  with ap obtain n v0 where n: "find_node i g = Some n" "map_of (params n) k = Some v0"
    "g' = g\<lparr>nodes := update_node i (\<lambda>m. m\<lparr>params := AList.update k v (params m)\<rparr>) (nodes g)\<rparr>"
    "rv = SetParameter i k v0"
    by (auto split: option.splits)
  from n(1) have ni: "n \<in> set (nodes g)" "node_id n = i"
    using find_key_Some [of node_id i "nodes g" n] by (simp_all add: find_node_def)
  have f: "find_node i g' = Some (n\<lparr>params := AList.update k v (params n)\<rparr>)"
    unfolding find_node_def n(3)
    using find_update_node [of i "nodes g" n "\<lambda>m. m\<lparr>params := AList.update k v (params m)\<rparr>"] n(1)
    by (simp add: find_node_def)
  have b: "update_node i (\<lambda>m. m\<lparr>params := AList.update k v0 (params m)\<rparr>)
             (update_node i (\<lambda>m. m\<lparr>params := AList.update k v (params m)\<rparr>) (nodes g)) = nodes g"
    using wf ni n(2)
    by (intro update_node_back [where n = n]) (simp_all add: wf_graph_iff update_triv)
  from f b n SetParameter show ?thesis by (simp add: update_conv')
qed

lemma batch_wf:
  "wf_graph g \<Longrightarrow> applyBatch cs g = Inr (g', rvs) \<Longrightarrow> wf_graph g'"
proof (induction cs arbitrary: g g' rvs)
  case Nil
  then show ?case by simp
next
  case (Cons c cs)
  then show ?case
    by (auto split: sum.splits prod.splits dest: wf_preserved)
qed

lemma batch_append:
  "applyBatch cs g = Inr (g1, rs1) \<Longrightarrow> applyBatch ds g1 = Inr (g2, rs2) \<Longrightarrow>
   applyBatch (cs @ ds) g = Inr (g2, rs2 @ rs1)"
  by (induction cs arbitrary: g g1 rs1) (auto split: sum.splits prod.splits)

lemma batch_inverse:
  "wf_graph g \<Longrightarrow> applyBatch cs g = Inr (g', rvs) \<Longrightarrow> applyBatch rvs g' = Inr (g, cs)"
proof (induction cs arbitrary: g g' rvs)
  case Nil
  then show ?case by simp
next
  case (Cons c cs)
  from Cons.prems(2) obtain g1 rv rs where s: "applyStructural c g = Inr (g1, rv)"
    "applyBatch cs g1 = Inr (g', rs)" "rvs = rs @ [rv]"
    by (auto split: sum.splits prod.splits)
  have w1: "wf_graph g1" using Cons.prems(1) s(1) by (rule wf_preserved)
  have a: "applyBatch rs g' = Inr (g1, cs)" using Cons.IH [OF w1 s(2)] .
  have b: "applyBatch [rv] g1 = Inr (g, [c])"
    using apply_inverse [OF Cons.prems(1) s(1)] by simp
  from batch_append [OF a b] s(3) show ?case by simp
qed

lemma wf_next_id [simp]: "wf_graph (g\<lparr>next_id := c\<rparr>) = wf_graph g"
  by (simp add: wf_graph_iff)

lemma wf_empty [simp]: "wf_graph empty_graph"
  by (simp add: wf_graph_iff empty_graph_def)

lemma deserialize_wf: "deserialize t = Inr g \<Longrightarrow> wf_graph g"
  by (auto simp: deserialize_def split: if_splits option.splits)

lemma dispatch_wf:
  assumes "wf_graph (graph m)" "dispatch c m = Inr m'"
  shows "wf_graph (graph m')"
proof (cases c)
  case (Structural s)
  with assms show ?thesis
    by (auto simp: push_def split: sum.splits dest: wf_preserved)
next
  case (Paste t anchor)
  with assms obtain cmds k g rvs where
    "applyBatch cmds ((graph m)\<lparr>next_id := k\<rparr>) = Inr (g, rvs)" "graph m' = g"
    by (auto simp: push_def dispatch_batch_def split: sum.splits)
  with assms(1) batch_wf [of "(graph m)\<lparr>next_id := k\<rparr>" cmds g rvs] show ?thesis by simp
next
  case Play
  with assms show ?thesis by (auto simp: play_def)
next
  case Stop
  with assms show ?thesis by (auto simp: stop_def)
qed

lemma undo_wf: "wf_graph (graph m) \<Longrightarrow> undo m = Inr m' \<Longrightarrow> wf_graph (graph m')"
  by (auto simp: undo_def Let_def split: if_splits sum.splits dest: batch_wf)

lemma redo_wf: "wf_graph (graph m) \<Longrightarrow> redo m = Inr m' \<Longrightarrow> wf_graph (graph m')"
  by (auto simp: redo_def Let_def split: if_splits sum.splits dest: batch_wf)

lemma reachable_wf: "reachable m \<Longrightarrow> wf_graph (graph m)"
proof (induction rule: reachable.induct)
  case start
  show ?case by (simp add: fresh_model_def)
next
  case (dispatched m c m')
  then show ?case by (blast intro: dispatch_wf)
next
  case (undone m m')
  then show ?case by (blast intro: undo_wf)
next
  case (redone m m')
  then show ?case by (blast intro: redo_wf)
next
  case (created m)
  show ?case by (simp add: new_document_def replace_document_def stop_def)
next
  case (loaded m t m')
  then show ?case
    by (auto simp: load_text_def replace_document_def stop_def split: sum.splits dest: deserialize_wf)
qed

subsection \<open>Undo and redo\<close>

lemma replays_wf: "replays g0 es g \<Longrightarrow> wf_graph g0 \<and> wf_graph g"
  by (induction es arbitrary: g0) (auto split: sum.splits)

lemma replays_snoc:
  "replays g0 (es @ [e]) g \<longleftrightarrow>
     (\<exists>g1. replays g0 es g1 \<and> applyBatch (forward_cmds e) g1 = Inr (g, inverse_cmds e) \<and>
           applyBatch (inverse_cmds e) g = Inr (g1, forward_cmds e) \<and> wf_graph g)"
proof (induction es arbitrary: g0)
  case Nil
  show ?case by (auto split: sum.splits dest: batch_wf)
next
  case (Cons a es)
  show ?case by (auto simp: Cons split: sum.splits)
qed

lemma replays_step:
  assumes "wf_graph g" "applyBatch cs g = Inr (g', rvs)"
  shows "replays g [\<lparr>forward_cmds = cs, inverse_cmds = rvs\<rparr>] g'"
  using assms batch_inverse [OF assms] batch_wf [OF assms] by simp

lemma undo_step:
  assumes "consistent m g0 gf" "undo_stack m \<noteq> []"
  shows "\<exists>m'. undo m = Inr m' \<and> consistent m' g0 gf \<and>
           undo_stack m' = butlast (undo_stack m) \<and>
           redo_stack m' = redo_stack m @ [last (undo_stack m)] \<and>
           playing m' = playing m \<and> emitted m' = emitted m"
proof -
  from assms(2) obtain es e where us: "undo_stack m = es @ [e]"
    by (metis append_butlast_last_id)
  from assms(1) us obtain g1 where g1: "replays g0 es g1"
    "applyBatch (forward_cmds e) g1 = Inr (graph m, inverse_cmds e)"
    "applyBatch (inverse_cmds e) (graph m) = Inr (g1, forward_cmds e)"
    and r: "replays (graph m) (rev (redo_stack m)) gf"
    by (auto simp: consistent_def replays_snoc)
  let ?m' = "m\<lparr>graph := g1, undo_stack := butlast (undo_stack m),
               redo_stack := redo_stack m @ [e]\<rparr>"
  have u: "undo m = Inr ?m'"
    using us g1(3) by (simp add: undo_def)
  have "wf_graph g1" using g1(1) by (simp add: replays_wf)
  then have "consistent ?m' g0 gf"
    using g1 r us by (simp add: consistent_def)
  with u us show ?thesis by simp
qed

lemma redo_step:
  assumes "consistent m g0 gf" "redo_stack m \<noteq> []"
  shows "\<exists>m'. redo m = Inr m' \<and> consistent m' g0 gf \<and>
           redo_stack m' = butlast (redo_stack m) \<and>
           undo_stack m' = undo_stack m @ [last (redo_stack m)] \<and>
           playing m' = playing m \<and> emitted m' = emitted m"
proof -
  from assms(2) obtain es e where rs: "redo_stack m = es @ [e]"
    by (metis append_butlast_last_id)
  from assms(1) rs have u: "replays g0 (undo_stack m) (graph m)"
    and r: "replays (graph m) (e # rev es) gf"
    by (auto simp: consistent_def)
  from r obtain g1 where g1: "applyBatch (forward_cmds e) (graph m) = Inr (g1, inverse_cmds e)"
    "applyBatch (inverse_cmds e) g1 = Inr (graph m, forward_cmds e)" "replays g1 (rev es) gf"
    by (auto split: sum.splits)
  let ?m' = "m\<lparr>graph := g1, redo_stack := butlast (redo_stack m),
               undo_stack := undo_stack m @ [e]\<rparr>"
  have d: "redo m = Inr ?m'"
    using rs g1(1) by (simp add: redo_def)
  have "wf_graph g1" using g1(3) by (simp add: replays_wf)
  then have "consistent ?m' g0 gf"
    using g1 u rs by (simp add: consistent_def replays_snoc)
  with d rs show ?thesis by simp
qed

lemma undo_all:
  "consistent m g0 gf \<Longrightarrow> length (undo_stack m) = n \<Longrightarrow>
   \<exists>m'. undo_times n m = Inr m' \<and> consistent m' g0 gf \<and> graph m' = g0 \<and>
        undo_stack m' = [] \<and> redo_stack m' = redo_stack m @ rev (undo_stack m) \<and>
        playing m' = playing m \<and> emitted m' = emitted m"
proof (induction n arbitrary: m)
  case 0
  then show ?case by (auto simp: consistent_def)
next
  case (Suc n)
  then have ne: "undo_stack m \<noteq> []" by auto
  from undo_step [OF Suc.prems(1) ne] obtain m1 where m1: "undo m = Inr m1"
    "consistent m1 g0 gf" "undo_stack m1 = butlast (undo_stack m)"
    "redo_stack m1 = redo_stack m @ [last (undo_stack m)]"
    "playing m1 = playing m" "emitted m1 = emitted m"
    by blast
  have "length (undo_stack m1) = n" using m1(3) Suc.prems(2) by simp
  from Suc.IH [OF m1(2) this] obtain m' where m': "undo_times n m1 = Inr m'"
    "consistent m' g0 gf" "graph m' = g0" "undo_stack m' = []"
    "redo_stack m' = redo_stack m1 @ rev (undo_stack m1)"
    "playing m' = playing m1" "emitted m' = emitted m1"
    by blast
  have "[last (undo_stack m)] @ rev (butlast (undo_stack m)) = rev (undo_stack m)"
    using ne by (metis append_butlast_last_id rev.simps(2) rev_rev_ident rev_swap append_Cons append_Nil)
  with m1 m' show ?case by simp
qed

lemma redo_all:
  "consistent m g0 gf \<Longrightarrow> length (redo_stack m) = n \<Longrightarrow>
   \<exists>m'. redo_times n m = Inr m' \<and> consistent m' g0 gf \<and> graph m' = gf \<and>
        redo_stack m' = [] \<and> undo_stack m' = undo_stack m @ rev (redo_stack m) \<and>
        playing m' = playing m \<and> emitted m' = emitted m"
proof (induction n arbitrary: m)
  case 0
  then show ?case by (auto simp: consistent_def)
next
  case (Suc n)
  then have ne: "redo_stack m \<noteq> []" by auto
  from redo_step [OF Suc.prems(1) ne] obtain m1 where m1: "redo m = Inr m1"
    "consistent m1 g0 gf" "redo_stack m1 = butlast (redo_stack m)"
    "undo_stack m1 = undo_stack m @ [last (redo_stack m)]"
    "playing m1 = playing m" "emitted m1 = emitted m"
    by blast
  have "length (redo_stack m1) = n" using m1(3) Suc.prems(2) by simp
  from Suc.IH [OF m1(2) this] obtain m' where m': "redo_times n m1 = Inr m'"
    "consistent m' g0 gf" "graph m' = gf" "redo_stack m' = []"
    "undo_stack m' = undo_stack m1 @ rev (redo_stack m1)"
    "playing m' = playing m1" "emitted m' = emitted m1"
    by blast
  have "[last (redo_stack m)] @ rev (butlast (redo_stack m)) = rev (redo_stack m)"
    using ne by (metis append_butlast_last_id rev.simps(2) rev_rev_ident rev_swap append_Cons append_Nil)
  with m1 m' show ?case by simp
qed

lemma dispatch_structural:
  assumes "consistent m g0 gf" "dispatch (Structural c) m = Inr m'"
  shows "consistent m' g0 (graph m') \<and> length (undo_stack m') = Suc (length (undo_stack m)) \<and>
         redo_stack m' = [] \<and> playing m' = playing m \<and> emitted m' = emitted m"
proof -
  from assms(2) obtain g rv where a: "applyStructural c (graph m) = Inr (g, rv)"
    "m' = push \<lparr>forward_cmds = [c], inverse_cmds = [rv]\<rparr> (m\<lparr>graph := g\<rparr>)"
    by (auto split: sum.splits)
  have w: "wf_graph (graph m)" using assms(1) by (auto simp: consistent_def dest: replays_wf)
  have b: "applyBatch [c] (graph m) = Inr (g, [rv])" using a(1) by simp
  have i: "applyBatch [rv] g = Inr (graph m, [c])" using batch_inverse [OF w b] .
  have wg: "wf_graph g" using batch_wf [OF w b] .
  from assms(1) have "replays g0 (undo_stack m) (graph m)" by (simp add: consistent_def)
  with b i wg have "replays g0 (undo_stack m @ [\<lparr>forward_cmds = [c], inverse_cmds = [rv]\<rparr>]) g"
    by (subst replays_snoc) (auto simp del: applyBatch.simps)
  with a(2) wg show ?thesis by (simp add: consistent_def push_def)
qed

lemma run_structural:
  "consistent m0 g0 gf0 \<Longrightarrow> redo_stack m0 = [] \<Longrightarrow> run (map Structural cs) m0 = Inr m \<Longrightarrow>
   consistent m g0 (graph m) \<and> length (undo_stack m) = length (undo_stack m0) + length cs \<and>
   redo_stack m = [] \<and> playing m = playing m0 \<and> emitted m = emitted m0"
proof (induction cs arbitrary: m0 gf0)
  case Nil
  then show ?case by (auto simp: consistent_def)
next
  case (Cons c cs)
  from Cons.prems(3) obtain m1 where m1: "dispatch (Structural c) m0 = Inr m1"
    "run (map Structural cs) m1 = Inr m"
    by (auto split: sum.splits)
  from dispatch_structural [OF Cons.prems(1) m1(1)]
  have d: "consistent m1 g0 (graph m1)" "length (undo_stack m1) = Suc (length (undo_stack m0))"
    "redo_stack m1 = []" "playing m1 = playing m0" "emitted m1 = emitted m0"
    by simp_all
  from Cons.IH [OF d(1) d(3) m1(2)] d show ?case by simp
qed

text \<open>
  C2.  Let n structural commands be dispatched from a new document, all accepted.  Then
  n undos succeed and leave the empty graph, and n redos after them succeed and give
  back the model the commands had produced: the same graph, the same undo stack, an
  empty redo stack.
\<close>

theorem undo_redo_inverse:
  assumes "run (map Structural cs) (new_document m0) = Inr m"
  shows "\<exists>m1. undo_times (length cs) m = Inr m1 \<and> graph m1 = empty_graph \<and>
              redo_times (length cs) m1 = Inr m"
proof -
  let ?s = "new_document m0"
  have c0: "consistent ?s empty_graph empty_graph"
    by (simp add: consistent_def new_document_def replace_document_def stop_def empty_graph_def wf_graph_iff)
  have r0: "redo_stack ?s = []" by (simp add: new_document_def replace_document_def stop_def)
  from run_structural [OF c0 r0 assms]
  have c: "consistent m empty_graph (graph m)" "length (undo_stack m) = length cs"
    "redo_stack m = []"
    by (simp_all add: new_document_def replace_document_def stop_def)
  from undo_all [OF c(1) c(2)] obtain m1 where m1: "undo_times (length cs) m = Inr m1"
    "consistent m1 empty_graph (graph m)" "graph m1 = empty_graph" "undo_stack m1 = []"
    "redo_stack m1 = redo_stack m @ rev (undo_stack m)"
    "playing m1 = playing m" "emitted m1 = emitted m"
    by blast
  have "length (redo_stack m1) = length cs" using m1(5) c by simp
  from redo_all [OF m1(2) this] obtain m2 where m2: "redo_times (length cs) m1 = Inr m2"
    "graph m2 = graph m" "redo_stack m2 = []" "undo_stack m2 = undo_stack m1 @ rev (redo_stack m1)"
    "playing m2 = playing m1" "emitted m2 = emitted m1"
    by blast
  have "m2 = m" using m1 m2 c by simp
  with m1 m2 show ?thesis by blast
qed

text \<open>Five commands (two nodes, an edge, a move, a parameter), five undos, five
  redos.\<close>

theorem undo_redo_inverse_witness:
  "\<exists>m. run (map Structural demo_cmds) (new_document fresh_model) = Inr m \<and>
       node_ids (graph m) = [0, 1] \<and>
       (\<exists>m1. undo_times 5 m = Inr m1 \<and> graph m1 = empty_graph \<and> redo_times 5 m1 = Inr m)"
proof -
  have "case run (map Structural demo_cmds) (new_document fresh_model) of
          Inl err \<Rightarrow> False
        | Inr m \<Rightarrow> node_ids (graph m) = [0, 1]"
    by code_simp
  then obtain m where m: "run (map Structural demo_cmds) (new_document fresh_model) = Inr m"
    "node_ids (graph m) = [0, 1]"
    by (auto split: sum.splits)
  have l: "length demo_cmds = 5" by (simp add: demo_cmds_def)
  from undo_redo_inverse [OF m(1)] m l show ?thesis by auto
qed

subsection \<open>Serializer\<close>

declare show_nat.simps [simp del]

lemma digit_value_char: "d < 10 \<Longrightarrow> digit_value (digit_char d) = d"
  by (simp add: digit_value_def digit_char_def)

lemma is_digit_char: "d < 10 \<Longrightarrow> is_digit (digit_char d)"
  by (simp add: is_digit_def digit_char_def)

lemma semicolon_no_digit: "\<not> is_digit CHR '';''"
  by (simp add: is_digit_def)

lemma show_nat_digits: "\<forall>c \<in> set (show_nat n). is_digit c"
  by (induction n rule: show_nat.induct) (subst show_nat.simps, simp add: is_digit_char)

lemma show_nat_nonempty: "show_nat n \<noteq> []"
  by (subst show_nat.simps) simp

lemma digits_value_snoc: "digits_value (ds @ [c]) = 10 * digits_value ds + digit_value c"
  by (simp add: digits_value_def)

lemma digits_value_show: "digits_value (show_nat n) = n"
proof (induction n rule: show_nat.induct)
  case (1 n)
  show ?case
  proof (cases "n < 10")
    case True
    then show ?thesis
      by (subst show_nat.simps) (simp add: digits_value_def digit_value_char)
  next
    case False
    with 1 show ?thesis
      by (subst show_nat.simps) (simp add: digits_value_snoc digit_value_char)
  qed
qed

lemma read_write_nat: "read_nat (write_nat n @ rest) = Some (n, rest)"
proof -
  have t: "takeWhile is_digit (show_nat n @ CHR '';'' # rest) = show_nat n"
    using show_nat_digits [of n] by (simp add: takeWhile_append2 semicolon_no_digit)
  have d: "dropWhile is_digit (show_nat n @ CHR '';'' # rest) = CHR '';'' # rest"
    using show_nat_digits [of n] by (simp add: dropWhile_append2 semicolon_no_digit)
  show ?thesis
    by (simp add: read_nat_def write_nat_def t d show_nat_nonempty digits_value_show)
qed

lemma read_write_int: "read_int (write_int i @ rest) = Some (i, rest)"
  by (simp add: read_int_def write_int_def read_write_nat)

lemma read_write_string: "read_string (write_string s @ rest) = Some (s, rest)"
  by (simp add: read_string_def write_string_def read_write_nat)

lemma read_write_items:
  assumes "\<And>x r. x \<in> set xs \<Longrightarrow> rd (w x @ r) = Some (x, r)"
  shows "read_items rd (length xs) (concat (map w xs) @ rest) = Some (xs, rest)"
  using assms by (induction xs) simp_all

lemma read_write_list:
  assumes "\<And>x r. x \<in> set xs \<Longrightarrow> rd (w x @ r) = Some (x, r)"
  shows "read_list rd (write_list w xs @ rest) = Some (xs, rest)"
  using read_write_items [of xs rd w rest] assms
  by (simp add: read_list_def write_list_def read_write_nat)

lemma read_write_param: "read_param (write_param p @ rest) = Some (p, rest)"
  by (simp add: read_param_def write_param_def read_write_string read_write_int)

lemma read_write_node: "read_node (write_node n @ rest) = Some (n, rest)"
  by (simp add: read_node_def write_node_def read_write_nat read_write_string read_write_int
      read_write_list read_write_param)

lemma read_write_edge: "read_edge (write_edge e @ rest) = Some (e, rest)"
  by (simp add: read_edge_def write_edge_def read_write_nat)

lemma deserialize_serialize:
  assumes "wf_graph g"
  shows "deserialize (serialize g) = Inr g"
proof -
  let ?body = "write_nat (next_id g) @ write_list write_node (nodes g) @
     write_list write_edge (edges g)"
  have s: "sort_key node_id (nodes g) = nodes g" "sort_key edge_id (edges g) = edges g"
    using assms by (simp_all add: wf_graph_iff sort_key_id_if_sorted)
  have "read_graph ?body = Some (\<lparr>nodes = nodes g, edges = edges g, next_id = next_id g\<rparr>, [])"
    using read_write_list [of "edges g" read_edge write_edge "[]"]
    by (simp add: read_graph_def read_write_nat read_write_list read_write_node read_write_edge s)
  then have b: "read_graph ?body = Some (g, [])" by simp
  have "read_nat (write_nat format_version @ ?body) = Some (format_version, ?body)"
    by (rule read_write_nat)
  with b assms show ?thesis
    by (simp add: deserialize_def serialize_def)
qed

lemma run_reachable: "reachable m \<Longrightarrow> run cs m = Inr m' \<Longrightarrow> reachable m'"
  by (induction cs arbitrary: m) (auto split: sum.splits intro: reachable.dispatched)

text \<open>
  C1.  For every reachable state of the model, deserializing the text that serialize
  makes of its graph gives that graph back: the same nodes with their types, parameters
  and positions, the same edges, the same id counter.  So the session of main.js comes
  back: the unload handler stores the text under latestModelData, and the load handler
  of the next page, when the location has no hash, restores the graph from it.
\<close>

theorem serialize_round_trip:
  assumes "reachable m"
  shows "deserialize (serialize (graph m)) = Inr (graph m) \<and>
         (model_state pg = m \<and> location_hash pg = [] \<longrightarrow>
            graph (model_state (snd (onload model_js (snd (onunload model_js pg))))) = graph m)"
proof (intro conjI impI)
  show rt: "deserialize (serialize (graph m)) = Inr (graph m)"
    using assms by (intro deserialize_serialize reachable_wf)
  assume a: "model_state pg = m \<and> location_hash pg = []"
  let ?pg1 = "snd (onunload model_js pg)"
  have p1: "location_hash ?pg1 = []" "model_state ?pg1 = m"
    "localStorage ?pg1 storage_key = Some (serialize (graph m))"
    using a by (simp_all add: onunload_def record_call_def Let_def model_js_def)
  have ne: "serialize (graph m) \<noteq> []"
    by (simp add: serialize_def format_tag_def)
  have np: "\<not> model_playing model_js (model_new model_js (model_state ?pg1))"
    by (simp add: model_js_def new_document_def replace_document_def stop_def)
  from onload_imports [OF p1(1) p1(3) ne np] p1(2) rt
  show "graph (model_state (snd (onload model_js ?pg1))) = graph m"
    by (simp add: model_js_def load_text_def replace_document_def stop_def)
qed

theorem serialize_round_trip_witness:
  "\<exists>m. run (map Structural demo_cmds) fresh_model = Inr m \<and> reachable m \<and>
       node_ids (graph m) = [0, 1] \<and> edges (graph m) = [demo_edge] \<and>
       deserialize (serialize (graph m)) = Inr (graph m) \<and>
       graph (model_state (snd (onload model_js
         (snd (onunload model_js (initial_page\<lparr>model_state := m\<rparr>)))))) = graph m"
proof -
  have "case run (map Structural demo_cmds) fresh_model of
          Inl err \<Rightarrow> False
        | Inr m \<Rightarrow> node_ids (graph m) = [0, 1] \<and> edges (graph m) = [demo_edge]"
    by code_simp
  then obtain m where m: "run (map Structural demo_cmds) fresh_model = Inr m"
    "node_ids (graph m) = [0, 1]" "edges (graph m) = [demo_edge]"
    by (auto split: sum.splits)
  have r: "reachable m"
    using reachable.start m(1) by (rule run_reachable)
  have h: "location_hash (initial_page\<lparr>model_state := m\<rparr>) = []"
    by (simp add: initial_page_def)
  from serialize_round_trip [OF r, of "initial_page\<lparr>model_state := m\<rparr>"] h m r
  show ?thesis by auto
qed


subsection \<open>Composite commands\<close>

lemma decode_adds:
  "decode t anchor c = Inr (cmds, k) \<Longrightarrow> list_all is_add cmds"
  by (auto simp: decode_def Let_def list_all_iff split: option.splits if_splits)

lemma batch_adds:
  "list_all is_add cs \<Longrightarrow> applyBatch cs g = Inr (g', rvs) \<Longrightarrow>
   set (nodes g') = set (nodes g) \<union> set (added_nodes cs) \<and>
   set (edges g') = set (edges g) \<union> set (added_edges cs) \<and> next_id g' = next_id g"
proof (induction cs arbitrary: g g' rvs)
  case Nil
  then show ?case by simp
next
  case (Cons c cs)
  from Cons.prems(2) obtain g1 rv rs where s: "applyStructural c g = Inr (g1, rv)"
    "applyBatch cs g1 = Inr (g', rs)"
    by (auto split: sum.splits prod.splits)
  from Cons.prems(1) have "list_all is_add cs" by simp
  from Cons.IH [OF this s(2)] have ih: "set (nodes g') = set (nodes g1) \<union> set (added_nodes cs)"
    "set (edges g') = set (edges g1) \<union> set (added_edges cs)" "next_id g' = next_id g1"
    by simp_all
  show ?case
  proof (cases c)
    case (AddNode n)
    with s(1) have "g1 = g\<lparr>nodes := insort_key node_id n (nodes g)\<rparr>"
      by (auto split: if_splits)
    with ih AddNode show ?thesis by (auto simp: set_insort_key)
  next
    case (AddEdge e)
    with s(1) have "g1 = g\<lparr>edges := insort_key edge_id e (edges g)\<rparr>"
      by (auto split: if_splits)
    with ih AddEdge show ?thesis by (auto simp: set_insort_key)
  qed (use Cons.prems(1) in simp_all)
qed

lemma onpaste_model_js:
  assumes "\<not> isAnyInputActive pg" "dispatch (Paste t (cursor pg)) (model_state pg) = Inr m'"
  shows "onpaste model_js t pg =
           (Return (), (record_call model_js (Model_update (Paste t (cursor pg))) pg)
              \<lparr>model_state := m', defaultPrevented := True\<rparr>)"
  using assms by (simp add: onpaste_def call_update_def model_js_def update_def)

lemma batch_entry:
  assumes "wf_graph (graph m)" "dispatch_batch cmds m = Inr m'"
  shows "(\<exists>e. undo_stack m' = undo_stack m @ [e] \<and> forward_cmds e = cmds) \<and>
         (\<exists>m''. undo m' = Inr m'' \<and> graph m'' = graph m \<and>
                undo_stack m'' = undo_stack m \<and> redo m'' = Inr m')"
proof -
  from assms(2) obtain g rvs where d: "applyBatch cmds (graph m) = Inr (g, rvs)"
    "m' = push \<lparr>forward_cmds = cmds, inverse_cmds = rvs\<rparr> (m\<lparr>graph := g\<rparr>)"
    by (auto simp: dispatch_batch_def split: sum.splits)
  have bk: "applyBatch rvs g = Inr (graph m, cmds)"
    using batch_inverse [OF assms(1) d(1)] .
  let ?e = "\<lparr>forward_cmds = cmds, inverse_cmds = rvs\<rparr>"
  let ?m'' = "m'\<lparr>graph := graph m, undo_stack := undo_stack m, redo_stack := [?e]\<rparr>"
  have u: "undo m' = Inr ?m''"
    using d(2) bk by (simp add: undo_def push_def)
  have r: "redo ?m'' = Inr m'"
    using d by (simp add: redo_def push_def)
  have e: "undo_stack m' = undo_stack m @ [?e]" using d(2) by (simp add: push_def)
  from u r e show ?thesis by simp
qed

lemma batch_entry_adds:
  assumes "list_all is_add cmds" "dispatch_batch cmds m = Inr m'"
  shows "set (nodes (graph m')) = set (nodes (graph m)) \<union> set (added_nodes cmds) \<and>
         set (edges (graph m')) = set (edges (graph m)) \<union> set (added_edges cmds)"
proof -
  from assms(2) obtain g rvs where d: "applyBatch cmds (graph m) = Inr (g, rvs)"
    "m' = push \<lparr>forward_cmds = cmds, inverse_cmds = rvs\<rparr> (m\<lparr>graph := g\<rparr>)"
    by (auto simp: dispatch_batch_def split: sum.splits)
  from batch_adds [OF assms(1) d(1)] d(2) show ?thesis by (simp add: push_def)
qed

text \<open>
  C5.  A composite command is one history entry, and one undo takes all of it back.
  For every list of structural commands dispatched as a batch (what the specification
  says of Paste and of GroupNodes): the undo stack grows by exactly one entry that holds
  the list, one undo succeeds and gives back the graph as it was, and redo gives the
  model after the batch.  For Paste: the entry holds only AddNode and AddEdge commands,
  the graph after the paste is the old one and these nodes and edges, and after one
  undo the nodes and the edges are exactly the old ones, none of the pasted ones is
  left.  The paste handler of main.js sends this one command.
\<close>

theorem composite_is_one_history_entry:
  assumes "reachable m"
  shows "(dispatch_batch cmds m = Inr m' \<longrightarrow>
            (\<exists>e. undo_stack m' = undo_stack m @ [e] \<and> forward_cmds e = cmds) \<and>
            (\<exists>m''. undo m' = Inr m'' \<and> graph m'' = graph m \<and>
                   undo_stack m'' = undo_stack m \<and> redo m'' = Inr m')) \<and>
         (dispatch (Paste t anchor) m = Inr m' \<longrightarrow>
            (\<exists>e. undo_stack m' = undo_stack m @ [e] \<and> list_all is_add (forward_cmds e) \<and>
                 set (nodes (graph m')) =
                   set (nodes (graph m)) \<union> set (added_nodes (forward_cmds e)) \<and>
                 set (edges (graph m')) =
                   set (edges (graph m)) \<union> set (added_edges (forward_cmds e))) \<and>
            (\<exists>m''. undo m' = Inr m'' \<and> nodes (graph m'') = nodes (graph m) \<and>
                   edges (graph m'') = edges (graph m) \<and>
                   undo_stack m'' = undo_stack m \<and> redo m'' = Inr m')) \<and>
         (\<not> isAnyInputActive pg \<and> model_state pg = m \<and>
          dispatch (Paste t (cursor pg)) m = Inr m' \<longrightarrow>
            model_state (snd (onpaste model_js t pg)) = m')"
proof (intro conjI impI)
  assume "dispatch_batch cmds m = Inr m'"
  from batch_entry [OF reachable_wf [OF assms] this]
  show "\<exists>e. undo_stack m' = undo_stack m @ [e] \<and> forward_cmds e = cmds"
    "\<exists>m''. undo m' = Inr m'' \<and> graph m'' = graph m \<and>
                   undo_stack m'' = undo_stack m \<and> redo m'' = Inr m'"
    by simp_all
next
  assume "\<not> isAnyInputActive pg \<and> model_state pg = m \<and>
          dispatch (Paste t (cursor pg)) m = Inr m'"
  then show "model_state (snd (onpaste model_js t pg)) = m'"
    using onpaste_model_js [of pg t m'] by simp
next
  assume p: "dispatch (Paste t anchor) m = Inr m'"
  then obtain cs k where d: "decode t anchor (next_id (graph m)) = Inr (cs, k)"
    "dispatch_batch cs (m\<lparr>graph := (graph m)\<lparr>next_id := k\<rparr>\<rparr>) = Inr m'"
    by (auto split: sum.splits)
  let ?m0 = "m\<lparr>graph := (graph m)\<lparr>next_id := k\<rparr>\<rparr>"
  have w: "wf_graph (graph ?m0)" using reachable_wf [OF assms] by simp
  have adds: "list_all is_add cs" using d(1) by (rule decode_adds)
  from batch_entry [OF w d(2)] obtain e m'' where e: "undo_stack m' = undo_stack m @ [e]"
    "forward_cmds e = cs" and u: "undo m' = Inr m''" "graph m'' = (graph m)\<lparr>next_id := k\<rparr>"
    "undo_stack m'' = undo_stack m" "redo m'' = Inr m'"
    by auto
  from batch_entry_adds [OF adds d(2)] e adds
  show "\<exists>e. undo_stack m' = undo_stack m @ [e] \<and> list_all is_add (forward_cmds e) \<and>
                 set (nodes (graph m')) =
                   set (nodes (graph m)) \<union> set (added_nodes (forward_cmds e)) \<and>
                 set (edges (graph m')) =
                   set (edges (graph m)) \<union> set (added_edges (forward_cmds e))"
    by auto
  from u show "\<exists>m''. undo m' = Inr m'' \<and> nodes (graph m'') = nodes (graph m) \<and>
                   edges (graph m'') = edges (graph m) \<and>
                   undo_stack m'' = undo_stack m \<and> redo m'' = Inr m'"
    by auto
qed

lemma demo_reachable: "reachable demo_model"
proof -
  have "fst (load_text demo_text fresh_model) = True" by code_simp
  then have "load_text demo_text fresh_model = (True, demo_model)"
    by (simp add: demo_model_def prod_eq_iff)
  with reachable.start show ?thesis by (rule reachable.loaded)
qed

text \<open>The example document, its two nodes and edge pasted: nodes 3 and 4 and edge 5
  appear, one entry is on the undo stack, one undo removes the three.\<close>

theorem composite_is_one_history_entry_witness:
  "\<exists>m'. dispatch (Paste demo_clip \<lparr>pos_x = 100, pos_y = 100\<rparr>) demo_model = Inr m' \<and>
        node_ids (graph m') = [0, 1, 3, 4] \<and> edge_ids (graph m') = [2, 5] \<and>
        length (undo_stack m') = 1 \<and>
        (\<exists>m''. undo m' = Inr m'' \<and> node_ids (graph m'') = [0, 1] \<and>
               edge_ids (graph m'') = [2] \<and> undo_stack m'' = [] \<and> redo m'' = Inr m')"
proof -
  have "case dispatch (Paste demo_clip \<lparr>pos_x = 100, pos_y = 100\<rparr>) demo_model of
          Inl err \<Rightarrow> False
        | Inr m' \<Rightarrow> node_ids (graph m') = [0, 1, 3, 4] \<and> edge_ids (graph m') = [2, 5]"
    by code_simp
  then obtain m' where m': "dispatch (Paste demo_clip \<lparr>pos_x = 100, pos_y = 100\<rparr>) demo_model = Inr m'"
    "node_ids (graph m') = [0, 1, 3, 4]" "edge_ids (graph m') = [2, 5]"
    by (auto split: sum.splits)
  have g: "node_ids (graph demo_model) = [0, 1]" "edge_ids (graph demo_model) = [2]"
    "undo_stack demo_model = []"
    by code_simp+
  from composite_is_one_history_entry [OF demo_reachable, of "[]" m' demo_clip
      "\<lparr>pos_x = 100, pos_y = 100\<rparr>" initial_page] m'(1)
  obtain e m'' where
    "undo_stack m' = undo_stack demo_model @ [e]" "undo m' = Inr m''"
    "nodes (graph m'') = nodes (graph demo_model)" "edges (graph m'') = edges (graph demo_model)"
    "undo_stack m'' = undo_stack demo_model" "redo m'' = Inr m'"
    by auto
  with m' g show ?thesis by (auto simp: node_ids_def edge_ids_def)
qed

end
